theory Spec2Isabelle
  imports Main
begin

section \<open>Paths, errors and JavaScript truthiness\<close>

type_synonym path = string

text \<open>
  \<^verbatim>\<open>this.incrementalFile\<close> is \<^verbatim>\<open>undefined\<close> until \<^verbatim>\<open>setIncrementalFile\<close> is called and
  \<^verbatim>\<open>null\<close> after \<^verbatim>\<open>resetIncrementalFile\<close>; both are \<open>None\<close>. The source tests the field
  with \<^verbatim>\<open>!this.incrementalFile\<close> and \<^verbatim>\<open>&& this.incrementalFile\<close>: JavaScript coerces it to
  a boolean, and the empty string is false as well.
\<close>

definition truthy :: "path option \<Rightarrow> bool" where
  "truthy f = (case f of None \<Rightarrow> False | Some p \<Rightarrow> p \<noteq> [])"

text \<open>
  \<^verbatim>\<open>TemplatePath.stripLeadingDotSlash\<close> of the eleventy-utils package:
  \<^verbatim>\<open>path.replace(/^\.\//, "")\<close>, one leading \<^verbatim>\<open>./\<close> removed.
\<close>

fun stripLeadingDotSlash :: "path \<Rightarrow> path" where
  "stripLeadingDotSlash (a # b # rest) =
     (if a = CHR ''.'' \<and> b = CHR ''/'' then rest else a # b # rest)"
| "stripLeadingDotSlash p = p"

datatype error =
    TemplateWriterMissingConfigArgError string
  | TemplateContentPrematureUseError
  | RenderFailure string
  | DataCascadeError path
  | CopyError string
  | EleventyTemplateError string error
  | EleventyPassthroughCopyError string error

text \<open>
  Modelled from the spec: \<^verbatim>\<open>EleventyErrorUtil.isPrematureTemplateContentError\<close> (its file is
  not part of the sources) recognises the premature-content-access failure.
\<close>

fun isPrematureTemplateContentError :: "error \<Rightarrow> bool" where
  "isPrematureTemplateContentError TemplateContentPrematureUseError = True"
| "isPrematureTemplateContentError e = False"

section \<open>The template handle\<close>

datatype linter = LinterFunction nat | NotAFunction

record config =
  transforms :: "string list"
  linters :: "(string \<times> linter) list"

record template =
  inputPath :: path
  tTemplateData :: nat
  outputFormat :: string
  tTransforms :: "string list"
  tLinters :: "nat list"
  tDryRun :: bool
  tIsVerbose :: bool
  renderableOverride :: "bool option"
  bookkeeping :: bool
  readCache :: bool
  dataCache :: bool
  renderCache :: bool
  dryRunViaIncremental :: bool
  templateRender :: bool
  tWriteCount :: nat

text \<open>
  Modelled from the spec: the class \<^verbatim>\<open>Template\<close> (Template.js is not part of the sources).
  A handle owns three sub-caches that are invalidated independently (read, data, render;
  \<open>True\<close> is a populated cache) and ephemeral per-run bookkeeping. The render override is
  \<^verbatim>\<open>undefined\<close> (\<open>None\<close>, render enabled) or a boolean. A handle is constructed bound to a
  path and the data context, with nothing cached.
\<close>

definition newTemplate :: "path \<Rightarrow> nat \<Rightarrow> template" where
  "newTemplate p d =
     \<lparr> inputPath = p, tTemplateData = d, outputFormat = ''fs'', tTransforms = [],
       tLinters = [], tDryRun = False, tIsVerbose = True, renderableOverride = None,
       bookkeeping = False, readCache = False, dataCache = False, renderCache = False,
       dryRunViaIncremental = False, templateRender = False, tWriteCount = 0 \<rparr>"

definition setTemplateData :: "nat \<Rightarrow> template \<Rightarrow> template" where
  "setTemplateData d t = t\<lparr>tTemplateData := d\<rparr>"

definition setOutputFormat :: "string \<Rightarrow> template \<Rightarrow> template" where
  "setOutputFormat to t = t\<lparr>outputFormat := to\<rparr>"

definition setTransforms :: "string list \<Rightarrow> template \<Rightarrow> template" where
  "setTransforms ts t = t\<lparr>tTransforms := ts\<rparr>"

definition addLinter :: "nat \<Rightarrow> template \<Rightarrow> template" where
  "addLinter l t = t\<lparr>tLinters := tLinters t @ [l]\<rparr>"

definition setDryRunT :: "bool \<Rightarrow> template \<Rightarrow> template" where
  "setDryRunT b t = t\<lparr>tDryRun := b\<rparr>"

definition setIsVerbose :: "bool \<Rightarrow> template \<Rightarrow> template" where
  "setIsVerbose b t = t\<lparr>tIsVerbose := b\<rparr>"

text \<open>
  Modelled from the spec: \<^verbatim>\<open>Template.reset\<close>, "the handle's own per-run reset": the
  per-run write counter starts again; no cache is touched.
\<close>

definition reset :: "template \<Rightarrow> template" where
  "reset t = t\<lparr>tWriteCount := 0\<rparr>"

text \<open>
  Modelled from the spec: \<^verbatim>\<open>Template.resetCaches\<close>. With an argument
  \<^verbatim>\<open>{data?, render?}\<close> it is a selective reset: exactly the named sub-caches are cleared
  ("clearing the data cache never implicitly clears the render cache or vice versa").
  With no argument it is the "full soft reset" that clears "its internal transient caches
  (not read/data/render -- only ephemeral per-run bookkeeping)".
\<close>

record resetTypes =
  rtData :: bool
  rtRender :: bool

definition resetCaches :: "resetTypes option \<Rightarrow> template \<Rightarrow> template" where
  "resetCaches types t =
     (case types of
        None \<Rightarrow> t\<lparr>bookkeeping := False\<rparr>
      | Some ty \<Rightarrow>
          t\<lparr>dataCache := (if rtData ty then False else dataCache t),
            renderCache := (if rtRender ty then False else renderCache t)\<rparr>)"

definition setRenderableOverride :: "bool option \<Rightarrow> template \<Rightarrow> template" where
  "setRenderableOverride v t = t\<lparr>renderableOverride := v\<rparr>"

definition setDryRunViaIncremental :: "template \<Rightarrow> template" where
  "setDryRunViaIncremental t = t\<lparr>dryRunViaIncremental := True\<rparr>"

text \<open>
  Modelled from the spec: \<^verbatim>\<open>getTemplateRender\<close> "eagerly materializes the underlying
  render engine"; \<^verbatim>\<open>hasTemplateRender\<close> reads the field \<open>templateRender\<close>.
\<close>

definition getTemplateRender :: "template \<Rightarrow> template" where
  "getTemplateRender t = t\<lparr>templateRender := True\<rparr>"

section \<open>The writer\<close>

text \<open>
  The collaborator calls whose order the source fixes are recorded in a trace:
  \<open>Registered p\<close> is \<^verbatim>\<open>templateMap.add(tmpl)\<close> for the handle of input path \<open>p\<close>,
  \<open>Awaited p\<close> the completion of \<^verbatim>\<open>await p\<close> on that registration, \<open>Visited p\<close> the start of
  the main loop's iteration for \<open>p\<close>.
\<close>

datatype event =
    Registered path
  | Awaited path
  | DependencyGraphChanges path
  | AddToGlobalDependencyGraph
  | Visited path
  | CacheTemplateMap

text \<open>
  Template handles are objects: \<open>heap\<close> holds them, a handle is its index there, and
  \<open>templatePathCache\<close> (a JavaScript \<^verbatim>\<open>Map\<close> keyed by the path string) maps a path to
  the handle. \<open>templateMap\<close> lists the handles registered with the current
  \<^verbatim>\<open>TemplateMap\<close>, in the order of the \<^verbatim>\<open>add\<close> calls.
\<close>

record writer =
  wConfig :: config
  templateData :: nat
  isVerbose :: bool
  isDryRun :: bool
  writeCount :: nat
  skippedCount :: nat
  isRunInitialBuild :: bool
  isIncremental :: bool
  incrementalFile :: "path option"
  templatePathCache :: "path \<rightharpoonup> nat"
  heap :: "template list"
  templateMap :: "nat list"
  trace :: "event list"
  passthroughDryRun :: bool
  passthroughIncrementalFile :: "path option"

text \<open>The constructor: it throws when no configuration is given.\<close>

definition TemplateWriter :: "nat \<Rightarrow> config option \<Rightarrow> error + writer" where
  "TemplateWriter data eleventyConfig =
     (case eleventyConfig of
        None \<Rightarrow> Inl (TemplateWriterMissingConfigArgError ''Missing config argument.'')
      | Some c \<Rightarrow>
          Inr \<lparr> wConfig = c, templateData = data, isVerbose = True, isDryRun = False,
                writeCount = 0, skippedCount = 0, isRunInitialBuild = True,
                isIncremental = False, incrementalFile = None,
                templatePathCache = Map.empty, heap = [], templateMap = [], trace = [],
                passthroughDryRun = False, passthroughIncrementalFile = None \<rparr>)"

definition restart :: "writer \<Rightarrow> writer" where
  "restart w = w\<lparr>writeCount := 0, skippedCount := 0\<rparr>"

definition updT :: "nat \<Rightarrow> (template \<Rightarrow> template) \<Rightarrow> writer \<Rightarrow> writer" where
  "updT i f w = w\<lparr>heap := (heap w)[i := f (heap w ! i)]\<rparr>"

text \<open>
  \<^verbatim>\<open>for (let linterName in this.config.linters)\<close>: the linters that are functions are
  added, in order.
\<close>

fun addLinters :: "(string \<times> linter) list \<Rightarrow> template \<Rightarrow> template" where
  "addLinters [] t = t"
| "addLinters ((n, LinterFunction l) # ls) t = addLinters ls (addLinter l t)"
| "addLinters ((n, NotAFunction) # ls) t = addLinters ls t"

text \<open>The linters of the configuration that are functions, in order.\<close>

fun linterFunctions :: "(string \<times> linter) list \<Rightarrow> nat list" where
  "linterFunctions [] = []"
| "linterFunctions ((n, LinterFunction l) # ls) = l # linterFunctions ls"
| "linterFunctions ((n, NotAFunction) # ls) = linterFunctions ls"

text \<open>
  \<^verbatim>\<open>_createTemplate(path, to)\<close>: the cache is read with the path string as given; a hit
  rebinds the data context, a miss constructs a handle and stores it under that string.
  Either way the dry-run and verbose flags are applied and the handle is reset. The
  result is the handle, \<^verbatim>\<open>wasCached\<close>, and the writer.
\<close>

definition createTemplate :: "writer \<Rightarrow> path \<Rightarrow> string \<Rightarrow> (nat \<times> bool) \<times> writer" where
  "createTemplate w p to =
     (let (i, wasCached, w1) =
        (case templatePathCache w p of
           Some i \<Rightarrow> (i, True, updT i (setTemplateData (templateData w)) w)
         | None \<Rightarrow>
             (let i = length (heap w);
                  tmpl = setOutputFormat to (newTemplate p (templateData w));
                  tmpl = addLinters (linters (wConfig w))
                           (setTransforms (transforms (wConfig w)) tmpl)
              in (i, False,
                  w\<lparr>heap := heap w @ [tmpl],
                    templatePathCache := (templatePathCache w)(p \<mapsto> i)\<rparr>)))
      in ((i, wasCached),
          updT i (reset \<circ> setIsVerbose (isVerbose w) \<circ> setDryRunT (isDryRun w)) w1))"

text \<open>
  Every cached handle is an object of the heap, constructed for the path it is cached
  under. The constructor's writer satisfies this and \<open>createTemplate\<close> keeps it.
\<close>

definition wf :: "writer \<Rightarrow> bool" where
  "wf w = (\<forall>p i. templatePathCache w p = Some i \<longrightarrow>
             i < length (heap w) \<and> inputPath (heap w ! i) = p)"

section \<open>The collaborators\<close>

text \<open>
  The engine registry, the file discovery, the passthrough manager, the template map with
  its dependency graph, and the rendering of one entry are other files of the project.
  The writer only calls them, so they are parameters of the model: every theorem holds
  for every collaborator.
  \<^item> \<open>getFiles\<close> is the listing of \<^verbatim>\<open>eleventyFiles.getFiles()\<close>, \<open>hasEngine\<close> the answer of
    the extension map, \<open>isFullTemplateFile\<close> that of \<^verbatim>\<open>eleventyFiles\<close>, and
    \<open>isPassthroughCopyFile\<close> and \<open>copyAll\<close> those of the passthrough manager (\<open>copyAll\<close>
    is given the paths and the incremental file the manager was told);
  \<^item> \<open>isFileRelevantToThisTemplate p f full\<close> is the answer of the handle of input path
    \<open>p\<close> for the changed file \<open>f\<close>;
  \<^item> \<open>setupDependencyGraphChangesForIncrementalFile p\<close> is the set the template map
    returns, the paths relevant to deletions;
  \<^item> \<open>dataCascade p\<close> is the failure, if any, of the data cascade that
    \<^verbatim>\<open>templateMap.add\<close> computes for the handle of input path \<open>p\<close>, and
    \<open>cacheTemplateMap\<close> that of \<^verbatim>\<open>templateMap.cache()\<close>;
  \<^item> \<open>outputPaths p\<close> are the output paths of the map entries of that handle (none, one,
    or several under pagination);
  \<^item> \<open>generateMapEntry me n\<close> is what the \<open>n\<close>-th generation of the entry \<open>me\<close> in a
    run does: the pages it produces and how many of them it writes, or its failure.
  A value that a promise is fulfilled with is \<^verbatim>\<open>undefined\<close>, a page, or an array.
\<close>

datatype jsval = Undefined | Page string | Array "jsval list"

record mapEntry =
  meTemplate :: nat
  meInputPath :: path
  meOutputPath :: path

datatype genOutcome = Generated "string list" nat | Failed error

record env =
  getFiles :: "path list"
  hasEngine :: "path \<Rightarrow> bool"
  isFullTemplateFile :: "path list \<Rightarrow> path option \<Rightarrow> bool"
  isPassthroughCopyFile :: "path list \<Rightarrow> path \<Rightarrow> bool"
  isFileRelevantToThisTemplate :: "path \<Rightarrow> path \<Rightarrow> bool \<Rightarrow> bool"
  setupDependencyGraphChangesForIncrementalFile :: "path \<Rightarrow> path set"
  dataCascade :: "path \<Rightarrow> error option"
  outputPaths :: "path \<Rightarrow> path list"
  cacheTemplateMap :: "path list \<Rightarrow> error option"
  generateMapEntry :: "mapEntry \<Rightarrow> nat \<Rightarrow> genOutcome"
  copyAll :: "path list \<Rightarrow> path option \<Rightarrow> error + jsval"

section \<open>Building the template map\<close>

definition isIncrementalFileAPassthroughCopy :: "env \<Rightarrow> writer \<Rightarrow> path list \<Rightarrow> bool" where
  "isIncrementalFileAPassthroughCopy env w paths =
     (if \<not> truthy (incrementalFile w) then False
      else (case incrementalFile w of
              None \<Rightarrow> False
            | Some f \<Rightarrow> isPassthroughCopyFile env paths f))"

text \<open>
  \<^verbatim>\<open>this.templateMap.add(tmpl)\<close>: the handle is registered with the template map, which
  starts computing its data cascade; the call returns the promise of that computation.
\<close>

definition templateMapAdd :: "nat \<Rightarrow> writer \<Rightarrow> writer" where
  "templateMapAdd i w =
     w\<lparr>templateMap := templateMap w @ [i],
       trace := trace w @ [Registered (inputPath (heap w ! i))]\<rparr>"

text \<open>
  The body of the main loop of \<^verbatim>\<open>_addToTemplateMap\<close>, for one path. The three
  \<^verbatim>\<open>continue\<close> statements come first, in the source's order.
  \<^verbatim>\<open>await tmpl.getTemplateRender()\<close> suspends the loop; nothing else writes the writer
  meanwhile, so the model runs it in place.
\<close>

definition addPathToTemplateMap ::
  "env \<Rightarrow> bool \<Rightarrow> bool \<Rightarrow> path set \<Rightarrow> string \<Rightarrow> writer \<Rightarrow> path \<Rightarrow> writer" where
  "addPathToTemplateMap env isIncrementalFileAFullTemplate isIncrementalFileAPassthroughCopy'
       relevantToDeletions to w0 p =
     (let w = w0\<lparr>trace := trace w0 @ [Visited p]\<rparr> in
      if \<not> hasEngine env p then w
      else if isIncrementalFileAPassthroughCopy' then w\<lparr>skippedCount := skippedCount w + 1\<rparr>
      else if isIncrementalFileAFullTemplate \<and> incrementalFile w = Some p then w
      else
        (let ((i, wasCached), w1) = createTemplate w p to;
             w2 =
               (if \<not> truthy (incrementalFile w1) then
                  (let w1a =
                     (if \<not> isRunInitialBuild w1 then
                        (if wasCached then updT i (setRenderableOverride None) w1
                         else updT i (setRenderableOverride (Some False)) w1)
                      else w1)
                   in if wasCached then updT i (resetCaches None) w1a else w1a)
                else
                  (let isTemplateRelevantToDeletedCollections =
                         (stripLeadingDotSlash (inputPath (heap w1 ! i)) \<in> relevantToDeletions);
                       w1a =
                         (if \<not> wasCached \<and> \<not> templateRender (heap w1 ! i)
                          then updT i getTemplateRender w1 else w1)
                   in
                   if isTemplateRelevantToDeletedCollections \<or>
                      isFileRelevantToThisTemplate env (inputPath (heap w1a ! i))
                        (the (incrementalFile w1a)) isIncrementalFileAFullTemplate
                   then
                     (let w1b = updT i (resetCaches (Some \<lparr>rtData = True, rtRender = True\<rparr>)) w1a
                      in if \<not> isRunInitialBuild w1b
                         then updT i (setRenderableOverride None) w1b else w1b)
                   else
                     (let w1b = updT i (resetCaches (Some \<lparr>rtData = True, rtRender = False\<rparr>)) w1a;
                          w1c = (if \<not> isRunInitialBuild w1b
                                 then updT i (setRenderableOverride (Some False)) w1b else w1b);
                          w1d = updT i setDryRunViaIncremental w1c
                      in w1d\<lparr>skippedCount := skippedCount w1d + 1\<rparr>)))
         in templateMapAdd i w2))"

text \<open>
  \<^verbatim>\<open>return Promise.all(promises)\<close>: the promises are those of the registrations made by
  this call, so the call is rejected when one of their data cascades fails. Which failure
  is reported when several fail depends on the order they settle in; the model reports
  the first in the order of registration.
\<close>

definition allRegistered :: "env \<Rightarrow> nat \<Rightarrow> writer \<Rightarrow> error option \<times> writer" where
  "allRegistered env n0 w =
     (case List.map_filter (\<lambda>i. dataCascade env (inputPath (heap w ! i)))
             (drop n0 (templateMap w)) of
        [] \<Rightarrow> (None, w)
      | e # es \<Rightarrow> (Some e, w))"

text \<open>
  \<^verbatim>\<open>_addToTemplateMap(paths, to)\<close>. When the incremental file is a full template it is
  registered first and \<^verbatim>\<open>await p\<close> waits for its data cascade: a failure there rejects the
  call before the loop starts.
\<close>

definition addToTemplateMap ::
  "env \<Rightarrow> path list \<Rightarrow> string \<Rightarrow> writer \<Rightarrow> error option \<times> writer" where
  "addToTemplateMap env paths to w =
     (let isIncrementalFileAFullTemplate = isFullTemplateFile env paths (incrementalFile w);
          isIncrementalFileAPassthroughCopy' = isIncrementalFileAPassthroughCopy env w paths;
          n0 = length (templateMap w)
      in
      if isIncrementalFileAFullTemplate \<and> truthy (incrementalFile w) then
        (let ((i, wasCached), w1) = createTemplate w (the (incrementalFile w)) to;
             w2 = (if wasCached then updT i (resetCaches None) w1 else w1);
             w3 = (if \<not> isRunInitialBuild w2
                   then updT i (setRenderableOverride None) w2 else w2);
             w4 = templateMapAdd i w3
         in
         case dataCascade env (inputPath (heap w4 ! i)) of
           Some e \<Rightarrow> (Some e, w4)
         | None \<Rightarrow>
             (let w5 = w4\<lparr>trace := trace w4 @ [Awaited (inputPath (heap w4 ! i))]\<rparr>;
                  relevantToDeletions =
                    setupDependencyGraphChangesForIncrementalFile env (inputPath (heap w5 ! i));
                  w6 = w5\<lparr>trace := trace w5 @
                          [DependencyGraphChanges (inputPath (heap w5 ! i)),
                           AddToGlobalDependencyGraph]\<rparr>
              in allRegistered env n0
                   (foldl (addPathToTemplateMap env isIncrementalFileAFullTemplate
                             isIncrementalFileAPassthroughCopy' relevantToDeletions to)
                      w6 paths)))
      else
        allRegistered env n0
          (foldl (addPathToTemplateMap env isIncrementalFileAFullTemplate
                    isIncrementalFileAPassthroughCopy' {} to)
             w paths))"

text \<open>
  \<^verbatim>\<open>_createTemplateMap(paths, to)\<close>: a new template map, the registrations, the commit to
  the global dependency graph and \<^verbatim>\<open>templateMap.cache()\<close>.
\<close>

definition createTemplateMap ::
  "env \<Rightarrow> path list \<Rightarrow> string \<Rightarrow> writer \<Rightarrow> error option \<times> writer" where
  "createTemplateMap env paths to w =
     (case addToTemplateMap env paths to (w\<lparr>templateMap := []\<rparr>) of
        (Some e, w1) \<Rightarrow> (Some e, w1)
      | (None, w1) \<Rightarrow>
          (let w2 = w1\<lparr>trace := trace w1 @ [AddToGlobalDependencyGraph, CacheTemplateMap]\<rparr>
           in (cacheTemplateMap env (map (\<lambda>i. inputPath (heap w2 ! i)) (templateMap w2)), w2)))"

text \<open>
  Modelled from the spec: \<^verbatim>\<open>templateMap.getMap()\<close> (TemplateMap.js is not part of the
  sources). A build entry pairs a registered handle with the metadata of this run, its
  input path and one output path.
\<close>

definition getMap :: "env \<Rightarrow> writer \<Rightarrow> mapEntry list" where
  "getMap env w =
     concat (map (\<lambda>i. map (\<lambda>out. \<lparr>meTemplate = i, meInputPath = inputPath (heap w ! i),
                                   meOutputPath = out\<rparr>)
                        (outputPaths env (inputPath (heap w ! i))))
               (templateMap w))"


fun registrations :: "event list \<Rightarrow> path list" where
  "registrations [] = []"
| "registrations (Registered p # es) = p # registrations es"
| "registrations (e # es) = registrations es"

section \<open>Promises and the generation of the entries\<close>

text \<open>
  A promise is pending, fulfilled with a value, or rejected with an error. JavaScript
  runs one job to completion before the next: a reaction registered with \<^verbatim>\<open>.then\<close> or
  \<^verbatim>\<open>.catch\<close> never runs inside the job that registered it, only in a later job, after
  the promise has settled. So a run is the synchronous job that creates the promises,
  followed by the settlements, one job each, in an order the source does not fix: the
  schedule, a list of indices into the list of promises.

  A promise of the run is described by the work it waits for and the reaction on it:
  the passthrough copy (\<^verbatim>\<open>writePassthroughCopy\<close>), or the generation of an entry with the
  reactions of the first or of the second loop of \<^verbatim>\<open>generateTemplates\<close>.
\<close>

datatype 'a promise = Pending | Fulfilled 'a | Rejected error

datatype pass = FirstPass | SecondPass

datatype job = CopyJob "path list" | GenerateJob mapEntry pass

record task =
  job :: job
  state :: "jsval promise"

record run =
  runWriter :: writer
  usedTemplateContentTooEarlyMap :: "mapEntry list"
  promises :: "task list"
  allPromise :: "jsval list promise"

definition quoted :: "string \<Rightarrow> string" where
  "quoted s = CHR 0x22 # s @ [CHR 0x22]"

definition firstPassMessage :: "mapEntry \<Rightarrow> string" where
  "firstPassMessage me =
     ''Having trouble writing to '' @ quoted (meOutputPath me) @ '' from '' @
     quoted (meInputPath me)"

definition secondPassMessage :: "mapEntry \<Rightarrow> string" where
  "secondPassMessage me =
     ''Having trouble writing to (second pass) '' @ quoted (meOutputPath me) @ '' from '' @
     quoted (meInputPath me)"

definition passNumber :: "pass \<Rightarrow> nat" where
  "passNumber ps = (case ps of FirstPass \<Rightarrow> 1 | SecondPass \<Rightarrow> 2)"

text \<open>
  What a promise of the run settles to. For a generation this is
  \<^verbatim>\<open>this._generateTemplate(mapEntry, to).catch(...)\<close>: the first loop's reaction returns
  nothing for a premature-content failure, so the promise is fulfilled with
  \<^verbatim>\<open>undefined\<close>, and rejects with an \<^verbatim>\<open>EleventyTemplateError\<close> for any other failure; the
  second loop's reaction rejects for every failure.
\<close>

definition jobOutcome :: "env \<Rightarrow> path option \<Rightarrow> job \<Rightarrow> jsval promise" where
  "jobOutcome env incr j =
     (case j of
        CopyJob paths \<Rightarrow>
          (case copyAll env paths incr of
             Inr v \<Rightarrow> Fulfilled v
           | Inl e \<Rightarrow> Rejected (EleventyPassthroughCopyError ''Having trouble copying'' e))
      | GenerateJob me ps \<Rightarrow>
          (case generateMapEntry env me (passNumber ps) of
             Generated pages n \<Rightarrow> Fulfilled (Array (map Page pages))
           | Failed e \<Rightarrow>
               (case ps of
                  FirstPass \<Rightarrow>
                    (if isPrematureTemplateContentError e then Fulfilled Undefined
                     else Rejected (EleventyTemplateError (firstPassMessage me) e))
                | SecondPass \<Rightarrow> Rejected (EleventyTemplateError (secondPassMessage me) e))))"

text \<open>
  The effects of the reactions on the writer and on the list the first loop's reaction
  pushes to. Modelled from the spec: a successful generation increments the handle's own
  write count "by however many outputs were actually written" (the second component of
  \<open>Generated\<close>); \<^verbatim>\<open>_generateTemplate\<close> then adds \<^verbatim>\<open>tmpl.getWriteCount()\<close> to the writer's.
\<close>

definition jobEffect :: "env \<Rightarrow> job \<Rightarrow> run \<Rightarrow> run" where
  "jobEffect env j r =
     (case j of
        CopyJob paths \<Rightarrow> r
      | GenerateJob me ps \<Rightarrow>
          (case generateMapEntry env me (passNumber ps) of
             Generated pages n \<Rightarrow>
               (let w1 = updT (meTemplate me) (\<lambda>t. t\<lparr>tWriteCount := tWriteCount t + n\<rparr>)
                           (runWriter r);
                    w2 = w1\<lparr>writeCount := writeCount w1 + tWriteCount (heap w1 ! meTemplate me)\<rparr>
                in r\<lparr>runWriter := w2\<rparr>)
           | Failed e \<Rightarrow>
               (case ps of
                  FirstPass \<Rightarrow>
                    (if isPrematureTemplateContentError e
                     then r\<lparr>usedTemplateContentTooEarlyMap :=
                               usedTemplateContentTooEarlyMap r @ [me]\<rparr>
                     else r)
                | SecondPass \<Rightarrow> r)))"

text \<open>
  \<^verbatim>\<open>Promise.all(promises)\<close>, as ECMAScript defines it: fulfilled with the list of the
  values once every promise is fulfilled (at once for an empty list), rejected with the
  error of the first promise whose rejection reaches it, whatever the others' states.
\<close>

definition isFulfilled :: "'a promise \<Rightarrow> bool" where
  "isFulfilled p = (case p of Fulfilled v \<Rightarrow> True | _ \<Rightarrow> False)"

definition valueOf :: "jsval promise \<Rightarrow> jsval" where
  "valueOf p = (case p of Fulfilled v \<Rightarrow> v | _ \<Rightarrow> Undefined)"

definition promiseAll :: "task list \<Rightarrow> jsval list promise" where
  "promiseAll ts = (if ts = [] then Fulfilled [] else Pending)"

definition promiseAllStep :: "task list \<Rightarrow> nat \<Rightarrow> jsval list promise \<Rightarrow> jsval list promise" where
  "promiseAllStep ts k agg =
     (case agg of
        Pending \<Rightarrow>
          (case state (ts ! k) of
             Rejected e \<Rightarrow> Rejected e
           | _ \<Rightarrow> if list_all (\<lambda>t. isFulfilled (state t)) ts
                  then Fulfilled (map (\<lambda>t. valueOf (state t)) ts) else Pending)
      | _ \<Rightarrow> agg)"

text \<open>One job of the schedule: promise \<open>k\<close> settles and its reactions run.\<close>

definition settle :: "env \<Rightarrow> nat \<Rightarrow> run \<Rightarrow> run" where
  "settle env k r =
     (if k < length (promises r) \<and> state (promises r ! k) = Pending then
        (let j = job (promises r ! k);
             st = jobOutcome env (passthroughIncrementalFile (runWriter r)) j;
             r1 = jobEffect env j r;
             r2 = r1\<lparr>promises := (promises r1)[k := (promises r1 ! k)\<lparr>state := st\<rparr>]\<rparr>
         in r2\<lparr>allPromise := promiseAllStep (promises r2) k (allPromise r2)\<rparr>)
      else r)"

definition runEvents :: "env \<Rightarrow> nat list \<Rightarrow> run \<Rightarrow> run" where
  "runEvents env sched r = foldl (\<lambda>r k. settle env k r) r sched"

definition pushTask :: "pass \<Rightarrow> run \<Rightarrow> mapEntry \<Rightarrow> run" where
  "pushTask ps r me = r\<lparr>promises := promises r @ [\<lparr>job = GenerateJob me ps, state = Pending\<rparr>]\<rparr>"

text \<open>
  \<^verbatim>\<open>generateTemplates(paths, to)\<close>, the synchronous job after
  \<^verbatim>\<open>await this._createTemplateMap(paths, to)\<close>: the first loop creates one promise per
  map entry, then the second loop creates one per entry of
  \<^verbatim>\<open>usedTemplateContentTooEarlyMap\<close> as that list is when the loop runs. A failure of
  \<^verbatim>\<open>_createTemplateMap\<close> rejects the call.
\<close>

definition generateTemplates ::
  "env \<Rightarrow> path list \<Rightarrow> string \<Rightarrow> writer \<Rightarrow> error option \<times> run" where
  "generateTemplates env paths to w =
     (case createTemplateMap env paths to w of
        (Some e, w1) \<Rightarrow>
          (Some e, \<lparr>runWriter = w1, usedTemplateContentTooEarlyMap = [], promises = [],
                     allPromise = Pending\<rparr>)
      | (None, w1) \<Rightarrow>
          (let r0 = \<lparr>runWriter = w1, usedTemplateContentTooEarlyMap = [], promises = [],
                      allPromise = Pending\<rparr>;
               r1 = foldl (pushTask FirstPass) r0 (getMap env w1);
               r2 = foldl (pushTask SecondPass) r1 (usedTemplateContentTooEarlyMap r1)
           in (None, r2)))"

text \<open>
  \<^verbatim>\<open>write()\<close>: the passthrough copy is the first promise, the promises of
  \<^verbatim>\<open>generateTemplates\<close> follow, and the result is \<^verbatim>\<open>Promise.all\<close> of them. The model
  returns the run as it is after the jobs of the schedule; \<open>allPromise\<close> is the state of
  the promise that \<^verbatim>\<open>write()\<close> returned.
\<close>

definition write_run :: "env \<Rightarrow> nat list \<Rightarrow> writer \<Rightarrow> run" where
  "write_run env sched w =
     (let paths = getFiles env;
          w1 = w\<lparr>passthroughIncrementalFile := incrementalFile w\<rparr>
      in case generateTemplates env paths ''fs'' w1 of
           (Some e, r) \<Rightarrow> r\<lparr>allPromise := Rejected e\<rparr>
         | (None, r) \<Rightarrow>
             (let ts = \<lparr>job = CopyJob paths, state = Pending\<rparr> # promises r
              in runEvents env sched (r\<lparr>promises := ts, allPromise := promiseAll ts\<rparr>)))"

text \<open>
  \<^verbatim>\<open>getJSON(to)\<close>: no passthrough copy; the fulfilled result is flattened by one level
  (\<^verbatim>\<open>results.flat()\<close>).
\<close>

definition flat :: "jsval list \<Rightarrow> jsval list" where
  "flat vs = concat (map (\<lambda>v. case v of Array xs \<Rightarrow> xs | _ \<Rightarrow> [v]) vs)"

definition getJSON :: "env \<Rightarrow> string \<Rightarrow> nat list \<Rightarrow> writer \<Rightarrow> jsval list promise \<times> run" where
  "getJSON env to sched w =
     (case generateTemplates env (getFiles env) to w of
        (Some e, r) \<Rightarrow> (Rejected e, r)
      | (None, r) \<Rightarrow>
          (let r1 = runEvents env sched (r\<lparr>allPromise := promiseAll (promises r)\<rparr>)
           in ((case allPromise r1 of
                  Fulfilled results \<Rightarrow> Fulfilled (flat results)
                | Rejected e \<Rightarrow> Rejected e
                | Pending \<Rightarrow> Pending), r1)))"

text \<open>
  The state of a run in which \<^verbatim>\<open>Promise.all\<close> is still pending and promise \<open>k\<close> has not
  settled; \<open>js\<close> are the jobs of the promises and \<open>incr\<close> the incremental file the
  passthrough manager was given.
\<close>

definition awaiting :: "nat \<Rightarrow> job list \<Rightarrow> path option \<Rightarrow> run \<Rightarrow> bool" where
  "awaiting k js incr r =
     (allPromise r = Pending \<and> map job (promises r) = js \<and> k < length js \<and>
      state (promises r ! k) = Pending \<and>
      passthroughIncrementalFile (runWriter r) = incr)"

section \<open>The operations of the writer\<close>

definition setDryRun :: "bool \<Rightarrow> writer \<Rightarrow> writer" where
  "setDryRun b w = w\<lparr>isDryRun := b, passthroughDryRun := b\<rparr>"

text \<open>
  The methods of the class that write the writer, as operations; a run takes the
  schedule of its settlements. The setters of collaborators (\<^verbatim>\<open>setEleventyFiles\<close>, the
  extension map, the logger) write nothing the model holds.
\<close>

datatype operation =
    Restart
  | OverrideConfig config
  | SetVerboseOutput bool
  | SetDryRun bool
  | SetRunInitialBuild bool
  | SetIncrementalBuild bool
  | SetIncrementalFile "path option"
  | ResetIncrementalFile
  | CreateTemplate path string
  | CreateTemplateMap "path list" string
  | GenerateTemplates "path list" string "nat list"
  | WritePassthroughCopy "path list"
  | Write "nat list"
  | GetJSON string "nat list"

definition applyOperation :: "env \<Rightarrow> operation \<Rightarrow> writer \<Rightarrow> writer" where
  "applyOperation env op w =
     (case op of
        Restart \<Rightarrow> restart w
      | OverrideConfig c \<Rightarrow> w\<lparr>wConfig := c\<rparr>
      | SetVerboseOutput b \<Rightarrow> w\<lparr>isVerbose := b\<rparr>
      | SetDryRun b \<Rightarrow> setDryRun b w
      | SetRunInitialBuild b \<Rightarrow> w\<lparr>isRunInitialBuild := b\<rparr>
      | SetIncrementalBuild b \<Rightarrow> w\<lparr>isIncremental := b\<rparr>
      | SetIncrementalFile f \<Rightarrow> w\<lparr>incrementalFile := f\<rparr>
      | ResetIncrementalFile \<Rightarrow> w\<lparr>incrementalFile := None\<rparr>
      | CreateTemplate p to \<Rightarrow> snd (createTemplate w p to)
      | CreateTemplateMap paths to \<Rightarrow> snd (createTemplateMap env paths to w)
      | GenerateTemplates paths to sched \<Rightarrow>
          runWriter (runEvents env sched (snd (generateTemplates env paths to w)))
      | WritePassthroughCopy paths \<Rightarrow> w\<lparr>passthroughIncrementalFile := incrementalFile w\<rparr>
      | Write sched \<Rightarrow> runWriter (write_run env sched w)
      | GetJSON to sched \<Rightarrow> runWriter (snd (getJSON env to sched w)))"

section \<open>Concrete writers and collaborators\<close>

definition config0 :: config where
  "config0 = \<lparr>transforms = [''htmlmin''],
               linters = [(''a11y'', LinterFunction 0), (''off'', NotAFunction)]\<rparr>"

definition writer0 :: writer where
  "writer0 = projr (TemplateWriter 0 (Some config0))"

text \<open>
  A site of two templates, of which \<^verbatim>\<open>a.md\<close> uses a layout and \<^verbatim>\<open>b.md\<close> does not.
\<close>

definition envInc :: env where
  "envInc =
     \<lparr> getFiles = [''a.md'', ''b.md''],
       hasEngine = (\<lambda>p. True),
       isFullTemplateFile = (\<lambda>ps f. False),
       isPassthroughCopyFile = (\<lambda>ps f. False),
       isFileRelevantToThisTemplate = (\<lambda>t f full. t = ''a.md''),
       setupDependencyGraphChangesForIncrementalFile = (\<lambda>p. {}),
       dataCascade = (\<lambda>p. None),
       outputPaths = (\<lambda>p. [''_site/'' @ p]),
       cacheTemplateMap = (\<lambda>ps. None),
       generateMapEntry = (\<lambda>me n. Generated [meOutputPath me] 1),
       copyAll = (\<lambda>ps f. Inr (Array [])) \<rparr>"

text \<open>
  A watch process started without an initial build, at its second full run: \<^verbatim>\<open>b.md\<close> is
  cached from the first run, with render disabled then.
\<close>

definition writerWatch :: writer where
  "writerWatch =
     (updT 0 (\<lambda>t. t\<lparr>renderableOverride := Some False, bookkeeping := True,
                      readCache := True, dataCache := True\<rparr>)
        (snd (createTemplate writer0 ''b.md'' ''fs'')))
     \<lparr>isRunInitialBuild := False\<rparr>"


definition writerChanged :: writer where
  "writerChanged = writer0\<lparr>incrementalFile := Some ''a.md''\<rparr>"

text \<open>
  A changed file that the passthrough manager classifies as a raw copy and that is a
  template of the listing as well (a template under a directory configured for
  passthrough copy).
\<close>

definition envPass :: env where
  "envPass =
     \<lparr> getFiles = [''a.md'', ''b.md'', ''logo.png''],
       hasEngine = (\<lambda>p. p \<noteq> ''logo.png''),
       isFullTemplateFile = (\<lambda>ps f. case f of None \<Rightarrow> False | Some q \<Rightarrow> q \<in> set ps),
       isPassthroughCopyFile = (\<lambda>ps f. True),
       isFileRelevantToThisTemplate = (\<lambda>t f full. False),
       setupDependencyGraphChangesForIncrementalFile = (\<lambda>p. {}),
       dataCascade = (\<lambda>p. None),
       outputPaths = (\<lambda>p. [''_site/'' @ p]),
       cacheTemplateMap = (\<lambda>ps. None),
       generateMapEntry = (\<lambda>me n. Generated [meOutputPath me] 1),
       copyAll = (\<lambda>ps f. Inr (Array [])) \<rparr>"

text \<open>An incremental run after a change to the image \<^verbatim>\<open>logo.png\<close>, a raw copy only.\<close>

definition envCopy :: env where
  "envCopy = envPass\<lparr>isFullTemplateFile := (\<lambda>ps f. False)\<rparr>"

definition writerCopy :: writer where
  "writerCopy = writer0\<lparr>incrementalFile := Some ''logo.png''\<rparr>"

text \<open>
  Two templates: the rendering of \<^verbatim>\<open>a.md\<close> fails (not a premature content access),
  \<^verbatim>\<open>b.md\<close> is generated.
\<close>

definition envFail :: env where
  "envFail =
     \<lparr> getFiles = [''a.md'', ''b.md''],
       hasEngine = (\<lambda>p. True),
       isFullTemplateFile = (\<lambda>ps f. False),
       isPassthroughCopyFile = (\<lambda>ps f. False),
       isFileRelevantToThisTemplate = (\<lambda>t f full. False),
       setupDependencyGraphChangesForIncrementalFile = (\<lambda>p. {}),
       dataCascade = (\<lambda>p. None),
       outputPaths = (\<lambda>p. [''_site/'' @ p]),
       cacheTemplateMap = (\<lambda>ps. None),
       generateMapEntry = (\<lambda>me n. if meInputPath me = ''a.md''
                                     then Failed (RenderFailure ''unknown filter'')
                                     else Generated [meOutputPath me] 1),
       copyAll = (\<lambda>ps f. Inr (Array [])) \<rparr>"

definition aEntry :: mapEntry where
  "aEntry = \<lparr>meTemplate = 0, meInputPath = ''a.md'', meOutputPath = ''_site/a.md''\<rparr>"

text \<open>
  Two templates: \<^verbatim>\<open>feed.njk\<close> uses the rendered content of \<^verbatim>\<open>index.md\<close>. In \<open>envEarly\<close>
  its first generation fails with a premature content access and any later one would
  succeed; in \<open>envCircular\<close> every generation of it fails so.
\<close>

definition envEarly :: env where
  "envEarly =
     \<lparr> getFiles = [''index.md'', ''feed.njk''],
       hasEngine = (\<lambda>p. True),
       isFullTemplateFile = (\<lambda>ps f. False),
       isPassthroughCopyFile = (\<lambda>ps f. False),
       isFileRelevantToThisTemplate = (\<lambda>t f full. False),
       setupDependencyGraphChangesForIncrementalFile = (\<lambda>p. {}),
       dataCascade = (\<lambda>p. None),
       outputPaths = (\<lambda>p. [''_site/'' @ p]),
       cacheTemplateMap = (\<lambda>ps. None),
       generateMapEntry = (\<lambda>me n. if meInputPath me = ''feed.njk'' \<and> n = 1
                                     then Failed TemplateContentPrematureUseError
                                     else Generated [meOutputPath me] 1),
       copyAll = (\<lambda>ps f. Inr (Array [])) \<rparr>"

definition envCircular :: env where
  "envCircular =
     envEarly\<lparr>generateMapEntry := (\<lambda>me n. if meInputPath me = ''feed.njk''
                                           then Failed TemplateContentPrematureUseError
                                           else Generated [meOutputPath me] 1)\<rparr>"

definition indexEntry :: mapEntry where
  "indexEntry = \<lparr>meTemplate = 0, meInputPath = ''index.md'', meOutputPath = ''_site/index.md''\<rparr>"

definition feedEntry :: mapEntry where
  "feedEntry = \<lparr>meTemplate = 1, meInputPath = ''feed.njk'', meOutputPath = ''_site/feed.njk''\<rparr>"

text \<open>
  A watch session: an incremental run after a change to a layout, then the incremental
  file is reset and a fresh full run follows, with no \<^verbatim>\<open>restart()\<close> in between.
\<close>

definition afterIncrementalRun :: writer where
  "afterIncrementalRun =
     applyOperation envInc (Write [0, 1, 2])
       (applyOperation envInc (SetIncrementalFile (Some ''layout.njk'')) writer0)"

definition beforeFreshRun :: writer where
  "beforeFreshRun = applyOperation envInc ResetIncrementalFile afterIncrementalRun"

text \<open>
  An incremental run after a change to the template \<^verbatim>\<open>post.md\<close> that removed it from a
  collection which \<^verbatim>\<open>./tags.njk\<close> lists; \<^verbatim>\<open>about.md\<close> is unrelated. Both are cached with
  their caches populated, and render suppression is active.
\<close>

definition envDeleted :: env where
  "envDeleted =
     \<lparr> getFiles = [''post.md'', ''./tags.njk'', ''about.md''],
       hasEngine = (\<lambda>p. True),
       isFullTemplateFile = (\<lambda>ps f. f = Some ''post.md''),
       isPassthroughCopyFile = (\<lambda>ps f. False),
       isFileRelevantToThisTemplate = (\<lambda>t f full. False),
       setupDependencyGraphChangesForIncrementalFile =
         (\<lambda>p. if p = ''post.md'' then {''tags.njk''} else {}),
       dataCascade = (\<lambda>p. None),
       outputPaths = (\<lambda>p. [''_site/'' @ p]),
       cacheTemplateMap = (\<lambda>ps. None),
       generateMapEntry = (\<lambda>me n. Generated [meOutputPath me] 1),
       copyAll = (\<lambda>ps f. Inr (Array [])) \<rparr>"

definition populated :: "template \<Rightarrow> template" where
  "populated t = t\<lparr>readCache := True, dataCache := True, renderCache := True\<rparr>"

definition writerDeleted :: writer where
  "writerDeleted =
     (updT 1 populated (updT 0 populated
        (snd (createTemplate (snd (createTemplate writer0 ''./tags.njk'' ''fs''))
                ''about.md'' ''fs''))))
     \<lparr>incrementalFile := Some ''post.md'', isRunInitialBuild := False\<rparr>"

section \<open>Properties\<close>

text \<open>The definitions by which a concrete step is evaluated.\<close>

lemmas template_defs = newTemplate_def setTemplateData_def setOutputFormat_def setTransforms_def
  addLinter_def setDryRunT_def setIsVerbose_def reset_def resetCaches_def
  setRenderableOverride_def setDryRunViaIncremental_def getTemplateRender_def

lemmas writer_defs = TemplateWriter_def restart_def updT_def createTemplate_def
  isIncrementalFileAPassthroughCopy_def templateMapAdd_def addPathToTemplateMap_def
  allRegistered_def addToTemplateMap_def createTemplateMap_def getMap_def truthy_def
  List.map_filter_def

lemmas run_defs = jobOutcome_def jobEffect_def promiseAll_def promiseAllStep_def settle_def
  runEvents_def pushTask_def generateTemplates_def write_run_def getJSON_def flat_def
  isFulfilled_def valueOf_def passNumber_def

subsection \<open>The template cache\<close>

lemma updT_fields [simp]:
  "wConfig (updT i f w) = wConfig w"
  "templateData (updT i f w) = templateData w"
  "isVerbose (updT i f w) = isVerbose w"
  "isDryRun (updT i f w) = isDryRun w"
  "writeCount (updT i f w) = writeCount w"
  "skippedCount (updT i f w) = skippedCount w"
  "isRunInitialBuild (updT i f w) = isRunInitialBuild w"
  "isIncremental (updT i f w) = isIncremental w"
  "incrementalFile (updT i f w) = incrementalFile w"
  "templatePathCache (updT i f w) = templatePathCache w"
  "templateMap (updT i f w) = templateMap w"
  "trace (updT i f w) = trace w"
  "passthroughDryRun (updT i f w) = passthroughDryRun w"
  "passthroughIncrementalFile (updT i f w) = passthroughIncrementalFile w"
  "length (heap (updT i f w)) = length (heap w)"
  by (simp_all add: updT_def)

lemma heap_updT_same [simp]: "i < length (heap w) \<Longrightarrow> heap (updT i f w) ! i = f (heap w ! i)"
  by (simp add: updT_def)

lemma heap_updT_other [simp]: "j \<noteq> i \<Longrightarrow> heap (updT i f w) ! j = heap w ! j"
  by (simp add: updT_def)

lemma inputPath_addLinters [simp]: "inputPath (addLinters ls t) = inputPath t"
  by (induction ls t rule: addLinters.induct) (simp_all add: addLinter_def)

lemma wf_createTemplate: "wf w \<Longrightarrow> wf (snd (createTemplate w p to))"
proof (cases "templatePathCache w p")
  case None
  assume w: "wf w"
  show ?thesis
    unfolding wf_def
  proof (intro allI impI)
    fix q i assume "templatePathCache (snd (createTemplate w p to)) q = Some i"
    with None have c: "((templatePathCache w)(p \<mapsto> length (heap w))) q = Some i"
      by (simp add: createTemplate_def updT_def Let_def)
    show "i < length (heap (snd (createTemplate w p to))) \<and>
          inputPath (heap (snd (createTemplate w p to)) ! i) = q"
    proof (cases "q = p")
      case True
      with c have "i = length (heap w)" by simp
      with None True show ?thesis
        by (simp add: createTemplate_def updT_def Let_def reset_def setIsVerbose_def
            setDryRunT_def setOutputFormat_def setTransforms_def newTemplate_def)
    next
      case False
      with c have "templatePathCache w q = Some i" by simp
      with w have "i < length (heap w)" "inputPath (heap w ! i) = q"
        by (auto simp: wf_def)
      with None show ?thesis
        by (simp add: createTemplate_def updT_def Let_def nth_append nth_list_update)
    qed
  qed
next
  case (Some j)
  assume w: "wf w"
  from w Some have j: "j < length (heap w)" "inputPath (heap w ! j) = p"
    by (auto simp: wf_def)
  show ?thesis
    unfolding wf_def
  proof (intro allI impI)
    fix q i assume "templatePathCache (snd (createTemplate w p to)) q = Some i"
    with Some have c: "templatePathCache w q = Some i"
      by (simp add: createTemplate_def updT_def Let_def)
    with w have i: "i < length (heap w)" "inputPath (heap w ! i) = q"
      by (auto simp: wf_def)
    with Some j show "i < length (heap (snd (createTemplate w p to))) \<and>
          inputPath (heap (snd (createTemplate w p to)) ! i) = q"
      by (simp add: createTemplate_def updT_def Let_def nth_list_update reset_def
          setIsVerbose_def setDryRunT_def setTemplateData_def)
  qed
qed

lemma createTemplate_fields [simp]:
  "wConfig (snd (createTemplate w p to)) = wConfig w"
  "templateData (snd (createTemplate w p to)) = templateData w"
  "isVerbose (snd (createTemplate w p to)) = isVerbose w"
  "isDryRun (snd (createTemplate w p to)) = isDryRun w"
  "writeCount (snd (createTemplate w p to)) = writeCount w"
  "skippedCount (snd (createTemplate w p to)) = skippedCount w"
  "isRunInitialBuild (snd (createTemplate w p to)) = isRunInitialBuild w"
  "isIncremental (snd (createTemplate w p to)) = isIncremental w"
  "incrementalFile (snd (createTemplate w p to)) = incrementalFile w"
  "templateMap (snd (createTemplate w p to)) = templateMap w"
  "trace (snd (createTemplate w p to)) = trace w"
  "passthroughDryRun (snd (createTemplate w p to)) = passthroughDryRun w"
  "passthroughIncrementalFile (snd (createTemplate w p to)) = passthroughIncrementalFile w"
  by (simp_all add: createTemplate_def Let_def split: option.split)

lemma createTemplate_cached:
  assumes "templatePathCache w p = Some i"
  shows "fst (createTemplate w p to) = (i, True)"
    and "templatePathCache (snd (createTemplate w p to)) = templatePathCache w"
    and "length (heap (snd (createTemplate w p to))) = length (heap w)"
  using assms by (simp_all add: createTemplate_def)

lemma createTemplate_new:
  assumes "templatePathCache w p = None"
  shows "fst (createTemplate w p to) = (length (heap w), False)"
    and "templatePathCache (snd (createTemplate w p to)) =
           (templatePathCache w)(p \<mapsto> length (heap w))"
    and "length (heap (snd (createTemplate w p to))) = Suc (length (heap w))"
  using assms by (simp_all add: createTemplate_def Let_def)

lemma createTemplate_handle:
  "templatePathCache (snd (createTemplate w p to)) p = Some (fst (fst (createTemplate w p to)))"
  by (cases "templatePathCache w p") (simp_all add: createTemplate_cached createTemplate_new)

text \<open>
  Claim C4, as amended. Two consecutive \<^verbatim>\<open>_createTemplate\<close> calls with the same path
  string return the same handle, the second with \<^verbatim>\<open>wasCached\<close> true. A third call returns
  that handle again when its string is the same string, and a different handle when the
  string differs: the cache is keyed by the string as given, so a string that is equal
  only after normalization (a leading \<^verbatim>\<open>./\<close>) gets a handle of its own.
\<close>

theorem createTemplate_cache_identity:
  assumes "wf w"
  shows "let (h1, w1) = createTemplate w p to1;
             (h2, w2) = createTemplate w1 p to2;
             (h3, w3) = createTemplate w2 q to3
         in fst h2 = fst h1 \<and> snd h2 \<and>
            (if q = p then fst h3 = fst h1 \<and> snd h3 else fst h3 \<noteq> fst h1)"
proof -
  obtain h1 w1 where c1: "createTemplate w p to1 = (h1, w1)" by (cases "createTemplate w p to1")
  obtain h2 w2 where c2: "createTemplate w1 p to2 = (h2, w2)" by (cases "createTemplate w1 p to2")
  obtain h3 w3 where c3: "createTemplate w2 q to3 = (h3, w3)" by (cases "createTemplate w2 q to3")
  have k1: "templatePathCache w1 p = Some (fst h1)"
    using createTemplate_handle [of w p to1] c1 by simp
  have h2: "h2 = (fst h1, True)" and cache2: "templatePathCache w2 = templatePathCache w1"
    and len2: "length (heap w2) = length (heap w1)"
    using createTemplate_cached [OF k1, of to2] c2 by simp_all
  have wf1: "wf w1" using wf_createTemplate [OF assms, of p to1] c1 by simp
  have wf2: "wf w2" using wf_createTemplate [OF wf1, of p to2] c2 by simp
  have same: "q = p \<Longrightarrow> h3 = (fst h1, True)"
    using createTemplate_cached(1) [of w2 p "fst h1" to3] k1 cache2 c3 by simp
  have other: "fst h3 \<noteq> fst h1" if "q \<noteq> p"
  proof (cases "templatePathCache w2 q")
    case None
    then have "fst h3 = length (heap w2)"
      using createTemplate_new(1) [of w2 q to3] c3 by simp
    moreover have "fst h1 < length (heap w2)"
      using wf2 k1 cache2 by (simp add: wf_def)
    ultimately show ?thesis by simp
  next
    case (Some j)
    then have "fst h3 = j"
      using createTemplate_cached(1) [of w2 q j to3] c3 by simp
    moreover have "inputPath (heap w2 ! j) = q" using wf2 Some by (simp add: wf_def)
    moreover have "inputPath (heap w2 ! fst h1) = p" using wf2 k1 cache2 by (simp add: wf_def)
    ultimately show ?thesis using that by auto
  qed
  show ?thesis
    using c1 c2 c3 h2 same other by (simp add: Let_def)
qed

lemma wf_writer0: "wf writer0"
  by (simp add: wf_def writer0_def TemplateWriter_def)

theorem createTemplate_dot_slash_counterexample:
  "stripLeadingDotSlash ''./a.md'' = stripLeadingDotSlash ''a.md'' \<and>
   fst (createTemplate writer0 ''a.md'' ''fs'') = (0, False) \<and>
   fst (createTemplate (snd (createTemplate writer0 ''a.md'' ''fs'')) ''a.md'' ''fs'') = (0, True) \<and>
   fst (createTemplate (snd (createTemplate (snd (createTemplate writer0 ''a.md'' ''fs''))
          ''a.md'' ''fs'')) ''./a.md'' ''fs'') = (1, False)"
  by (simp add: createTemplate_def writer0_def TemplateWriter_def updT_def Let_def)

theorem createTemplate_cache_identity_witness:
  "wf writer0 \<and>
   fst (fst (createTemplate (snd (createTemplate writer0 ''a.md'' ''fs'')) ''a.md'' ''fs'')) =
     fst (fst (createTemplate writer0 ''a.md'' ''fs'')) \<and>
   snd (fst (createTemplate (snd (createTemplate writer0 ''a.md'' ''fs'')) ''a.md'' ''fs'')) \<and>
   fst (fst (createTemplate (snd (createTemplate (snd (createTemplate writer0 ''a.md'' ''fs''))
          ''a.md'' ''fs'')) ''./a.md'' ''fs'')) \<noteq> fst (fst (createTemplate writer0 ''a.md'' ''fs''))"
  using wf_writer0 createTemplate_cache_identity [OF wf_writer0, of "''a.md''" "''fs''" "''fs''" "''./a.md''" "''fs''"]
  by (simp add: Let_def split_beta)

subsection \<open>Invalidation in an incremental run\<close>

lemma addLinters_eq: "addLinters ls t = t\<lparr>tLinters := tLinters t @ linterFunctions ls\<rparr>"
  by (induction ls t rule: addLinters.induct) (simp_all add: addLinter_def)

lemma createTemplate_result:
  assumes "wf w"
  obtains i c w1 where
    "createTemplate w p to = ((i, c), w1)"
    "i < length (heap w1)"
    "templatePathCache w1 p = Some i"
    "inputPath (heap w1 ! i) = p"
    "wf w1"
    "c = (templatePathCache w p \<noteq> None)"
    "readCache (heap w1 ! i) = (case templatePathCache w p of Some j \<Rightarrow> readCache (heap w ! j) | None \<Rightarrow> False)"
    "renderCache (heap w1 ! i) = (case templatePathCache w p of Some j \<Rightarrow> renderCache (heap w ! j) | None \<Rightarrow> False)"
    "templateRender (heap w1 ! i) = (case templatePathCache w p of Some j \<Rightarrow> templateRender (heap w ! j) | None \<Rightarrow> False)"
proof -
  obtain i c w1 where eq: "createTemplate w p to = ((i, c), w1)"
    by (metis surj_pair)
  have k: "templatePathCache w1 p = Some i"
    using createTemplate_handle [of w p to] eq by simp
  have wf1: "wf w1" using wf_createTemplate [OF assms, of p to] eq by simp
  from wf1 k have b: "i < length (heap w1)" "inputPath (heap w1 ! i) = p"
    by (auto simp: wf_def)
  show thesis
  proof (cases "templatePathCache w p")
    case None
    with eq have "i = length (heap w)" "c = False" 
      using createTemplate_new(1) [OF None, of to] by simp_all
    moreover from None eq have "heap w1 ! i =
        (reset \<circ> setIsVerbose (isVerbose w) \<circ> setDryRunT (isDryRun w))
          (addLinters (linters (wConfig w))
             (setTransforms (transforms (wConfig w)) (setOutputFormat to (newTemplate p (templateData w)))))"
      by (auto simp: createTemplate_def Let_def updT_def)
    ultimately show ?thesis
      using that [OF eq b(1) k b(2) wf1] None
      by (simp add: addLinters_eq reset_def setIsVerbose_def setDryRunT_def setTransforms_def
          setOutputFormat_def newTemplate_def)
  next
    case (Some j)
    with assms have j: "j < length (heap w)" by (simp add: wf_def)
    from Some eq have ij: "i = j" "c = True"
      using createTemplate_cached(1) [OF Some, of to] by simp_all
    from Some eq j have "heap w1 ! i =
        (reset \<circ> setIsVerbose (isVerbose w) \<circ> setDryRunT (isDryRun w))
          (setTemplateData (templateData w) (heap w ! j))"
      by (auto simp: createTemplate_def Let_def updT_def)
    with ij show ?thesis
      using that [OF eq b(1) k b(2) wf1] Some
      by (simp add: reset_def setIsVerbose_def setDryRunT_def setTemplateData_def)
  qed
qed

lemma setters_inputPath [simp]:
  "inputPath (resetCaches ty t) = inputPath t"
  "inputPath (setRenderableOverride v t) = inputPath t"
  "inputPath (setDryRunViaIncremental t) = inputPath t"
  "inputPath (getTemplateRender t) = inputPath t"
  by (simp_all add: resetCaches_def setRenderableOverride_def setDryRunViaIncremental_def
      getTemplateRender_def split: option.split)

lemma templateMapAdd_fields [simp]:
  "skippedCount (templateMapAdd i w) = skippedCount w"
  "writeCount (templateMapAdd i w) = writeCount w"
  "heap (templateMapAdd i w) = heap w"
  "templatePathCache (templateMapAdd i w) = templatePathCache w"
  "incrementalFile (templateMapAdd i w) = incrementalFile w"
  "isRunInitialBuild (templateMapAdd i w) = isRunInitialBuild w"
  "templateMap (templateMapAdd i w) = templateMap w @ [i]"
  "trace (templateMapAdd i w) = trace w @ [Registered (inputPath (heap w ! i))]"
  by (simp_all add: templateMapAdd_def)

text \<open>
  One step of the main loop in an incremental run, for a path that has an engine, outside
  the passthrough short-circuit and other than the pre-registered changed template.
\<close>

lemma incremental_step:
  assumes "wf w" and "truthy (incrementalFile w)" and "hasEngine env p"
    and "\<not> isPass" and "\<not> (isFull \<and> incrementalFile w = Some p)"
  shows "let w' = addPathToTemplateMap env isFull isPass rel to w p in
         \<exists>h. templatePathCache w' p = Some h \<and> h < length (heap w') \<and>
           (if stripLeadingDotSlash p \<in> rel \<or>
               isFileRelevantToThisTemplate env p (the (incrementalFile w)) isFull
            then \<not> dataCache (heap w' ! h) \<and> \<not> renderCache (heap w' ! h) \<and>
                 (\<not> isRunInitialBuild w \<longrightarrow> renderableOverride (heap w' ! h) = None) \<and>
                 skippedCount w' = skippedCount w
            else \<not> dataCache (heap w' ! h) \<and>
                 readCache (heap w' ! h) =
                   (case templatePathCache w p of Some j \<Rightarrow> readCache (heap w ! j) | None \<Rightarrow> False) \<and>
                 renderCache (heap w' ! h) =
                   (case templatePathCache w p of Some j \<Rightarrow> renderCache (heap w ! j) | None \<Rightarrow> False) \<and>
                 dryRunViaIncremental (heap w' ! h) \<and>
                 (\<not> isRunInitialBuild w \<longrightarrow> renderableOverride (heap w' ! h) = Some False) \<and>
                 skippedCount w' = skippedCount w + 1)"
proof -
  let ?wv = "w\<lparr>trace := trace w @ [Visited p]\<rparr>"
  let ?rel = "stripLeadingDotSlash p \<in> rel \<or>
               isFileRelevantToThisTemplate env p (the (incrementalFile w)) isFull"
  have wfv: "wf ?wv" using assms(1) by (simp add: wf_def)
  obtain i c w1 where r:
    "createTemplate ?wv p to = ((i, c), w1)"
    "i < length (heap w1)"
    "templatePathCache w1 p = Some i"
    "inputPath (heap w1 ! i) = p"
    and rc0: "readCache (heap w1 ! i) = (case templatePathCache ?wv p of Some j \<Rightarrow> readCache (heap ?wv ! j) | None \<Rightarrow> False)"
    "renderCache (heap w1 ! i) = (case templatePathCache ?wv p of Some j \<Rightarrow> renderCache (heap ?wv ! j) | None \<Rightarrow> False)"
    using createTemplate_result [OF wfv, of p to] by metis
  have rc: "readCache (heap w1 ! i) =
      (case templatePathCache w p of Some j \<Rightarrow> readCache (heap w ! j) | None \<Rightarrow> False)"
    "renderCache (heap w1 ! i) =
      (case templatePathCache w p of Some j \<Rightarrow> renderCache (heap w ! j) | None \<Rightarrow> False)"
    using rc0 by (simp_all cong: option.case_cong)
  have f1: "incrementalFile w1 = incrementalFile w" "isRunInitialBuild w1 = isRunInitialBuild w"
    "skippedCount w1 = skippedCount w"
    using createTemplate_fields [of ?wv p to] r(1) by simp_all
  have nf: "(isFull \<and> incrementalFile w = Some p) = False" using assms(5) by simp
  show ?thesis
    unfolding addPathToTemplateMap_def Let_def
    using assms(2,3,4) r rc f1
    by (simp add: nf resetCaches_def setRenderableOverride_def setDryRunViaIncremental_def
        getTemplateRender_def)
qed

lemma addPathToTemplateMap_fields [simp]:
  "incrementalFile (addPathToTemplateMap env isFull isPass rel to w p) = incrementalFile w"
  "isRunInitialBuild (addPathToTemplateMap env isFull isPass rel to w p) = isRunInitialBuild w"
  "writeCount (addPathToTemplateMap env isFull isPass rel to w p) = writeCount w"
  by (simp_all add: addPathToTemplateMap_def Let_def split_beta)

lemma addPathToTemplateMap_skipped_full:
  "\<not> truthy (incrementalFile w) \<Longrightarrow> \<not> isPass \<Longrightarrow>
     skippedCount (addPathToTemplateMap env isFull isPass rel to w p) = skippedCount w"
  by (simp add: addPathToTemplateMap_def Let_def split_beta)

lemma foldl_addPath_fields [simp]:
  "incrementalFile (foldl (addPathToTemplateMap env isFull isPass rel to) w ps) = incrementalFile w"
  "isRunInitialBuild (foldl (addPathToTemplateMap env isFull isPass rel to) w ps) = isRunInitialBuild w"
  "writeCount (foldl (addPathToTemplateMap env isFull isPass rel to) w ps) = writeCount w"
  by (induction ps arbitrary: w) simp_all

lemma foldl_addPath_skipped_full:
  "\<not> truthy (incrementalFile w) \<Longrightarrow> \<not> isPass \<Longrightarrow>
     skippedCount (foldl (addPathToTemplateMap env isFull isPass rel to) w ps) = skippedCount w"
  by (induction ps arbitrary: w) (simp_all add: addPathToTemplateMap_skipped_full)

lemma allRegistered_snd [simp]: "snd (allRegistered env n w) = w"
  by (simp add: allRegistered_def split: list.split)

text \<open>
  Claim C10. With no incremental file set (\<^verbatim>\<open>undefined\<close>, \<^verbatim>\<open>null\<close>, or the empty string,
  which JavaScript also takes for false), \<^verbatim>\<open>_isIncrementalFileAPassthroughCopy\<close> returns
  false whatever the paths and whatever the passthrough manager would answer, and
  \<^verbatim>\<open>_addToTemplateMap\<close> leaves the skipped counter as it was: no path is counted as
  skipped in a full run.
\<close>

theorem no_incremental_file_no_passthrough:
  assumes "\<not> truthy (incrementalFile w)"
  shows "isIncrementalFileAPassthroughCopy env w paths = False \<and>
         skippedCount (snd (addToTemplateMap env paths to w)) = skippedCount w"
  using assms
  by (simp add: isIncrementalFileAPassthroughCopy_def addToTemplateMap_def Let_def
      foldl_addPath_skipped_full)

theorem no_incremental_file_no_passthrough_witness:
  "\<not> truthy (incrementalFile writer0) \<and>
   isIncrementalFileAPassthroughCopy envPass writer0 (getFiles envPass) = False \<and>
   skippedCount (snd (addToTemplateMap envPass (getFiles envPass) ''fs'' writer0)) = 0"
proof -
  have h: "\<not> truthy (incrementalFile writer0)" "skippedCount writer0 = 0"
    by (simp_all add: writer0_def TemplateWriter_def truthy_def)
  show ?thesis
    using h no_incremental_file_no_passthrough [OF h(1), of envPass "getFiles envPass" "''fs''"]
    by simp
qed

lemma wf_writerWatch: "wf writerWatch"
  by (simp add: wf_def writerWatch_def writer0_def config0_def writer_defs template_defs Let_def)

subsection \<open>The order of the registrations\<close>

lemma wf_updT_iff [simp]:
  assumes "\<And>t. inputPath (f t) = inputPath t"
  shows "wf (updT i f w) = wf w"
proof -
  have "inputPath (heap (updT i f w) ! j) = inputPath (heap w ! j)" for j
    by (cases "j = i"; cases "i < length (heap w)") (simp_all add: assms updT_def list_update_beyond)
  then show ?thesis by (simp add: wf_def)
qed

lemma inputPath_updT [simp]:
  assumes "\<And>t. inputPath (f t) = inputPath t"
  shows "inputPath (heap (updT i f w) ! j) = inputPath (heap w ! j)"
  by (cases "j = i"; cases "i < length (heap w)") (simp_all add: assms updT_def list_update_beyond)

lemma wf_record_updates [simp]:
  "wf (w\<lparr>trace := tr\<rparr>) = wf w"
  "wf (w\<lparr>skippedCount := n\<rparr>) = wf w"
  "wf (w\<lparr>templateMap := tm\<rparr>) = wf w"
  "wf (templateMapAdd i w) = wf w"
  by (simp_all add: wf_def templateMapAdd_def)

lemma wf_addPathToTemplateMap:
  assumes "wf w"
  shows "wf (addPathToTemplateMap env isFull isPass rel to w p)"
proof -
  have "wf (snd (createTemplate (w\<lparr>trace := trace w @ [Visited p]\<rparr>) p to))"
    using assms by (intro wf_createTemplate) simp
  then show ?thesis
    using assms by (simp add: addPathToTemplateMap_def Let_def split_beta)
qed



lemma registrations_append [simp]:
  "registrations (xs @ ys) = registrations xs @ registrations ys"
  by (induction xs rule: registrations.induct) simp_all

lemma registrations_loop [simp]:
  "registrations (concat (map (\<lambda>p. Visited p # (if P p then [Registered p] else [])) ps)) =
   filter P ps"
  by (induction ps) simp_all

lemma addPath_passthrough:
  "addPathToTemplateMap env isFull True rel to w p =
   w\<lparr>trace := trace w @ [Visited p],
     skippedCount := skippedCount w + (if hasEngine env p then 1 else 0)\<rparr>"
  by (simp add: addPathToTemplateMap_def Let_def)

lemma foldl_addPath_passthrough:
  "foldl (addPathToTemplateMap env isFull True rel to) w ps =
   w\<lparr>trace := trace w @ map Visited ps,
     skippedCount := skippedCount w + length (filter (hasEngine env) ps)\<rparr>"
  by (induction ps arbitrary: w) (simp_all add: addPath_passthrough)




subsection \<open>A changed passthrough copy\<close>

text \<open>
  Claim C7, as amended. In an incremental run whose changed path the passthrough manager
  classifies as a raw copy, the main loop creates no build entry and touches no handle:
  when the changed path is not also a full template, \<^verbatim>\<open>_addToTemplateMap\<close> leaves the
  template map, the handles and the cache as they were; when it is also a full template,
  the pre-registration still registers that one handle, the only build entry of the run.
  Unless that pre-registration fails, the skipped counter grows by the number of paths
  with an engine.
\<close>

theorem passthrough_change_skips_loop:
  assumes "isIncrementalFileAPassthroughCopy env w paths"
  shows "let (r, w') = addToTemplateMap env paths to w in
           (if isFullTemplateFile env paths (incrementalFile w)
            then templateMap w' =
                   templateMap w @ [fst (fst (createTemplate w (the (incrementalFile w)) to))]
            else r = None \<and> templateMap w' = templateMap w \<and> heap w' = heap w \<and>
                 templatePathCache w' = templatePathCache w) \<and>
           (r = None \<longrightarrow>
              skippedCount w' = skippedCount w + length (filter (hasEngine env) paths))"
proof -
  have tr: "truthy (incrementalFile w)"
    using assms by (simp add: isIncrementalFileAPassthroughCopy_def split: if_splits)
  show ?thesis
  proof (cases "isFullTemplateFile env paths (incrementalFile w)")
    case False
    then show ?thesis
      using assms
      by (simp add: addToTemplateMap_def Let_def foldl_addPath_passthrough allRegistered_def
          List.map_filter_def)
  next
    case True
    obtain i c w1 where r: "createTemplate w (the (incrementalFile w)) to = ((i, c), w1)"
      by (metis surj_pair)
    have f1: "templateMap w1 = templateMap w" "skippedCount w1 = skippedCount w"
      using createTemplate_fields [of w "the (incrementalFile w)" to] r by simp_all
    show ?thesis
      using assms True tr r f1
      by (simp add: addToTemplateMap_def Let_def foldl_addPath_passthrough allRegistered_def
          List.map_filter_def templateMapAdd_def split: option.split)
  qed
qed

theorem passthrough_full_template_counterexample:
  "isIncrementalFileAPassthroughCopy envPass writerChanged (getFiles envPass) \<and>
   hasEngine envPass ''a.md'' \<and>
   templateMap (snd (addToTemplateMap envPass (getFiles envPass) ''fs'' writerChanged)) = [0] \<and>
   inputPath (heap (snd (addToTemplateMap envPass (getFiles envPass) ''fs'' writerChanged)) ! 0) =
     ''a.md'' \<and>
   map job (promises (snd (generateTemplates envPass (getFiles envPass) ''fs'' writerChanged))) =
     [GenerateJob \<lparr>meTemplate = 0, meInputPath = ''a.md'', meOutputPath = ''_site/a.md''\<rparr>
        FirstPass]"
  by (simp add: envPass_def writerChanged_def writer0_def config0_def writer_defs template_defs
      run_defs Let_def)

theorem passthrough_change_skips_loop_witness:
  "isIncrementalFileAPassthroughCopy envCopy writerCopy (getFiles envCopy) \<and>
   length (filter (hasEngine envCopy) (getFiles envCopy)) = 2 \<and>
   fst (addToTemplateMap envCopy (getFiles envCopy) ''fs'' writerCopy) = None \<and>
   templateMap (snd (addToTemplateMap envCopy (getFiles envCopy) ''fs'' writerCopy)) = [] \<and>
   heap (snd (addToTemplateMap envCopy (getFiles envCopy) ''fs'' writerCopy)) = [] \<and>
   skippedCount (snd (addToTemplateMap envCopy (getFiles envCopy) ''fs'' writerCopy)) = 2"
proof -
  have h: "isIncrementalFileAPassthroughCopy envCopy writerCopy (getFiles envCopy)"
    by (simp add: isIncrementalFileAPassthroughCopy_def envCopy_def envPass_def writerCopy_def
        truthy_def)
  have c: "\<not> isFullTemplateFile envCopy (getFiles envCopy) (incrementalFile writerCopy)"
    "length (filter (hasEngine envCopy) (getFiles envCopy)) = 2"
    "templateMap writerCopy = []" "heap writerCopy = []" "skippedCount writerCopy = 0"
    by (simp_all add: envCopy_def envPass_def writerCopy_def writer0_def TemplateWriter_def)
  show ?thesis
    using h c passthrough_change_skips_loop [OF h, of "''fs''"]
    by (simp add: split_beta)
qed

subsection \<open>The result of a run\<close>

lemma addPathToTemplateMap_pif [simp]:
  "passthroughIncrementalFile (addPathToTemplateMap env isFull isPass rel to w p) =
     passthroughIncrementalFile w"
  by (simp add: addPathToTemplateMap_def Let_def split_beta templateMapAdd_def)

lemma addPathToTemplateMap_skipped_le:
  "skippedCount w \<le> skippedCount (addPathToTemplateMap env isFull isPass rel to w p)"
  by (simp add: addPathToTemplateMap_def Let_def split_beta)

lemma foldl_addPath_pif [simp]:
  "passthroughIncrementalFile (foldl (addPathToTemplateMap env isFull isPass rel to) w ps) =
     passthroughIncrementalFile w"
  by (induction ps arbitrary: w) simp_all

lemma foldl_addPath_skipped_le:
  "skippedCount w \<le> skippedCount (foldl (addPathToTemplateMap env isFull isPass rel to) w ps)"
proof (induction ps arbitrary: w)
  case Nil
  then show ?case by simp
next
  case (Cons p ps)
  have "skippedCount w \<le> skippedCount (addPathToTemplateMap env isFull isPass rel to w p)"
    by (rule addPathToTemplateMap_skipped_le)
  also have "\<dots> \<le> skippedCount (foldl (addPathToTemplateMap env isFull isPass rel to)
                        (addPathToTemplateMap env isFull isPass rel to w p) ps)"
    by (rule Cons.IH)
  finally show ?case by simp
qed

lemma addToTemplateMap_frame:
  "passthroughIncrementalFile (snd (addToTemplateMap env paths to w)) = passthroughIncrementalFile w"
  "writeCount (snd (addToTemplateMap env paths to w)) = writeCount w"
  "incrementalFile (snd (addToTemplateMap env paths to w)) = incrementalFile w"
  by (simp_all add: addToTemplateMap_def Let_def split_beta templateMapAdd_def split: option.split)

lemma foldl_addPath_skipped_ge:
  "n \<le> skippedCount w \<Longrightarrow>
   n \<le> skippedCount (foldl (addPathToTemplateMap env isFull isPass rel to) w ps)"
  by (rule order_trans [OF _ foldl_addPath_skipped_le])

lemma addToTemplateMap_skipped_le:
  "skippedCount w \<le> skippedCount (snd (addToTemplateMap env paths to w))"
  by (auto simp: addToTemplateMap_def Let_def split_beta templateMapAdd_def
      split: option.split intro!: foldl_addPath_skipped_ge)

lemma createTemplateMap_snd:
  "snd (createTemplateMap env paths to w) =
     (case fst (addToTemplateMap env paths to (w\<lparr>templateMap := []\<rparr>)) of
        Some e \<Rightarrow> snd (addToTemplateMap env paths to (w\<lparr>templateMap := []\<rparr>))
      | None \<Rightarrow> (snd (addToTemplateMap env paths to (w\<lparr>templateMap := []\<rparr>)))
                  \<lparr>trace := trace (snd (addToTemplateMap env paths to (w\<lparr>templateMap := []\<rparr>)))
                            @ [AddToGlobalDependencyGraph, CacheTemplateMap]\<rparr>)"
  by (simp add: createTemplateMap_def Let_def split: prod.split option.split)

lemma createTemplateMap_frame:
  "passthroughIncrementalFile (snd (createTemplateMap env paths to w)) = passthroughIncrementalFile w"
  "writeCount (snd (createTemplateMap env paths to w)) = writeCount w"
  "incrementalFile (snd (createTemplateMap env paths to w)) = incrementalFile w"
  by (simp_all add: createTemplateMap_snd addToTemplateMap_frame split: option.split)

lemma createTemplateMap_skipped_le:
  "skippedCount w \<le> skippedCount (snd (createTemplateMap env paths to w))"
  using addToTemplateMap_skipped_le [of "w\<lparr>templateMap := []\<rparr>" env paths to]
  by (simp add: createTemplateMap_snd split: option.split)

lemma jobEffect_frame [simp]:
  "promises (jobEffect env j r) = promises r"
  "allPromise (jobEffect env j r) = allPromise r"
  "passthroughIncrementalFile (runWriter (jobEffect env j r)) = passthroughIncrementalFile (runWriter r)"
  "skippedCount (runWriter (jobEffect env j r)) = skippedCount (runWriter r)"
  by (simp_all add: jobEffect_def Let_def split: job.split genOutcome.split pass.split)

lemma jobEffect_writeCount_le:
  "writeCount (runWriter r) \<le> writeCount (runWriter (jobEffect env j r))"
  by (simp add: jobEffect_def Let_def split: job.split genOutcome.split pass.split)

lemma settle_jobs [simp]: "map job (promises (settle env j r)) = map job (promises r)"
  by (simp add: settle_def Let_def map_update list_update_same_conv)

lemma settle_length [simp]: "length (promises (settle env j r)) = length (promises r)"
  by (simp add: settle_def Let_def)

lemma settle_pif [simp]:
  "passthroughIncrementalFile (runWriter (settle env j r)) = passthroughIncrementalFile (runWriter r)"
  by (simp add: settle_def Let_def)

lemma settle_state_other:
  "j \<noteq> k \<Longrightarrow> state (promises (settle env j r) ! k) = state (promises r ! k)"
  by (simp add: settle_def Let_def)

lemma settle_rejected_stays:
  "allPromise r = Rejected e \<Longrightarrow> allPromise (settle env j r) = Rejected e"
  by (simp add: settle_def Let_def promiseAllStep_def)

lemma runEvents_rejected_stays:
  "allPromise r = Rejected e \<Longrightarrow> allPromise (runEvents env sched r) = Rejected e"
  unfolding runEvents_def
  by (induction sched arbitrary: r) (simp_all add: settle_rejected_stays)

lemma settle_rejects:
  assumes "awaiting k js incr r" and "jobOutcome env incr (js ! k) = Rejected e"
  shows "allPromise (settle env k r) = Rejected e"
proof -
  from assms(1) have a: "allPromise r = Pending" "k < length (promises r)"
    "state (promises r ! k) = Pending" "job (promises r ! k) = js ! k"
    "passthroughIncrementalFile (runWriter r) = incr"
    by (auto simp: awaiting_def)
  then show ?thesis
    using assms(2) by (simp add: settle_def Let_def promiseAllStep_def)
qed

lemma settle_fulfilled_keeps:
  assumes "awaiting k js incr r"
    and "j < length js \<longrightarrow> j \<noteq> k \<and> isFulfilled (jobOutcome env incr (js ! j))"
  shows "awaiting k js incr (settle env j r)"
proof (cases "j < length (promises r) \<and> state (promises r ! j) = Pending")
  case False
  then have "settle env j r = r" by (auto simp: settle_def)
  with assms(1) show ?thesis by simp
next
  case True
  from assms(1) have a: "allPromise r = Pending" "k < length (promises r)"
    "state (promises r ! k) = Pending" "map job (promises r) = js"
    "passthroughIncrementalFile (runWriter r) = incr"
    by (auto simp: awaiting_def)
  from True a(4) have jl: "j < length js" by auto
  with assms(2) have jk: "j \<noteq> k" and ful: "isFulfilled (jobOutcome env incr (js ! j))" by auto
  from a(4) jl have jj: "job (promises r ! j) = js ! j" by (metis nth_map True)
  obtain v where v: "jobOutcome env incr (js ! j) = Fulfilled v"
    using ful by (cases "jobOutcome env incr (js ! j)") (simp_all add: isFulfilled_def)
  have notall: "\<not> list_all (\<lambda>t. isFulfilled (state t))
                   ((promises r)[j := (promises r ! j)\<lparr>state := Fulfilled v\<rparr>])"
  proof
    assume "list_all (\<lambda>t. isFulfilled (state t))
              ((promises r)[j := (promises r ! j)\<lparr>state := Fulfilled v\<rparr>])"
    then have "isFulfilled (state (((promises r)[j := (promises r ! j)\<lparr>state := Fulfilled v\<rparr>]) ! k))"
      using a(2) by (simp add: list_all_length)
    with jk a(3) show False by (simp add: isFulfilled_def)
  qed
  have "allPromise (settle env j r) = Pending"
    using True a(1,5) jj v notall
    by (simp add: settle_def Let_def promiseAllStep_def)
  moreover have "state (promises (settle env j r) ! k) = Pending"
    using settle_state_other [OF jk, of env r] a(3) by simp
  moreover have "k < length js" using assms(1) by (simp add: awaiting_def)
  ultimately show ?thesis
    using a by (simp add: awaiting_def)
qed

lemma runEvents_fulfilled_keeps:
  assumes "awaiting k js incr r"
    and "\<forall>j\<in>set pre. j < length js \<longrightarrow> j \<noteq> k \<and> isFulfilled (jobOutcome env incr (js ! j))"
  shows "awaiting k js incr (runEvents env pre r)"
  using assms unfolding runEvents_def
  by (induction pre arbitrary: r) (simp_all add: settle_fulfilled_keeps)

lemma runEvents_append: "runEvents env (xs @ ys) r = runEvents env ys (runEvents env xs r)"
  by (simp add: runEvents_def)

lemma runEvents_Cons: "runEvents env (x # xs) r = runEvents env xs (settle env x r)"
  by (simp add: runEvents_def)

lemma runEvents_rejects_at_first:
  assumes "awaiting k js incr r"
    and "\<forall>j\<in>set pre. j < length js \<longrightarrow> j \<noteq> k \<and> isFulfilled (jobOutcome env incr (js ! j))"
    and "jobOutcome env incr (js ! k) = Rejected e"
  shows "allPromise (runEvents env (pre @ k # post) r) = Rejected e"
proof -
  have "awaiting k js incr (runEvents env pre r)"
    using assms(1,2) by (rule runEvents_fulfilled_keeps)
  then have "allPromise (settle env k (runEvents env pre r)) = Rejected e"
    using assms(3) by (rule settle_rejects)
  then show ?thesis
    by (simp add: runEvents_append runEvents_Cons runEvents_rejected_stays)
qed

lemma foldl_pushTask:
  "foldl (pushTask ps) r mes =
   r\<lparr>promises := promises r @ map (\<lambda>me. \<lparr>job = GenerateJob me ps, state = Pending\<rparr>) mes\<rparr>"
  by (induction mes arbitrary: r) (simp_all add: pushTask_def)

lemma generateTemplates_writer:
  "runWriter (snd (generateTemplates env paths to w)) = snd (createTemplateMap env paths to w)"
  by (simp add: generateTemplates_def Let_def foldl_pushTask split: prod.split option.split)

lemma generateTemplates_promises:
  "promises (snd (generateTemplates env paths to w)) =
     (case fst (createTemplateMap env paths to w) of
        Some e \<Rightarrow> []
      | None \<Rightarrow> map (\<lambda>me. \<lparr>job = GenerateJob me FirstPass, state = Pending\<rparr>)
                  (getMap env (snd (createTemplateMap env paths to w))))"
  by (simp add: generateTemplates_def Let_def foldl_pushTask split: prod.split option.split)

lemma generateTemplates_used:
  "usedTemplateContentTooEarlyMap (snd (generateTemplates env paths to w)) = []"
  by (simp add: generateTemplates_def Let_def foldl_pushTask split: prod.split option.split)

lemma generateTemplates_first_pass_only:
  "t \<in> set (promises (snd (generateTemplates env paths to w))) \<Longrightarrow>
   \<exists>me. t = \<lparr>job = GenerateJob me FirstPass, state = Pending\<rparr>"
  by (auto simp: generateTemplates_promises split: option.splits)

lemma first_pass_premature_swallowed:
  "generateMapEntry env me 1 = Failed e \<Longrightarrow> isPrematureTemplateContentError e \<Longrightarrow>
   jobOutcome env incr (GenerateJob me FirstPass) = Fulfilled Undefined"
  by (simp add: jobOutcome_def passNumber_def)

lemma first_pass_failure_wrapped:
  "generateMapEntry env me 1 = Failed e \<Longrightarrow> \<not> isPrematureTemplateContentError e \<Longrightarrow>
   jobOutcome env incr (GenerateJob me FirstPass) =
     Rejected (EleventyTemplateError
       (''Having trouble writing to '' @ quoted (meOutputPath me) @ '' from '' @
        quoted (meInputPath me)) e)"
  by (simp add: jobOutcome_def passNumber_def firstPassMessage_def)

text \<open>
  Claim C3, as amended. \<^verbatim>\<open>write()\<close> returns \<^verbatim>\<open>Promise.all(promises)\<close>. When a promise of the
  run is rejected (the passthrough copy fails, or an entry fails in the first pass with a
  failure other than premature content access) and the promises that settled before it
  were fulfilled, the result of \<^verbatim>\<open>write()\<close> is rejected with that promise's error in the
  very job in which the promise settles, whichever other promises are still pending, and
  stays so whatever settles later: the result is a rejection that carries the error and
  no output of any entry.
\<close>

theorem write_rejects_at_first_rejection:
  assumes "generateTemplates env (getFiles env) ''fs''
             (w\<lparr>passthroughIncrementalFile := incrementalFile w\<rparr>) = (None, r)"
    and "js = CopyJob (getFiles env) # map job (promises r)"
    and "k < length js"
    and "jobOutcome env (incrementalFile w) (js ! k) = Rejected e"
    and "\<forall>j\<in>set pre. j < length js \<longrightarrow>
           j \<noteq> k \<and> isFulfilled (jobOutcome env (incrementalFile w) (js ! j))"
  shows "allPromise (write_run env (pre @ k # post) w) = Rejected e"
proof -
  let ?w1 = "w\<lparr>passthroughIncrementalFile := incrementalFile w\<rparr>"
  let ?ts = "\<lparr>job = CopyJob (getFiles env), state = Pending\<rparr> # promises r"
  let ?r0 = "r\<lparr>promises := ?ts, allPromise := promiseAll ?ts\<rparr>"
  have rw: "runWriter r = snd (createTemplateMap env (getFiles env) ''fs'' ?w1)"
    using generateTemplates_writer [of env "getFiles env" "''fs''" ?w1] assms(1) by simp
  have pif: "passthroughIncrementalFile (runWriter r) = incrementalFile w"
    by (simp add: rw createTemplateMap_frame)
  have pend: "state t = Pending" if "t \<in> set (promises r)" for t
    using generateTemplates_first_pass_only [of t env "getFiles env" "''fs''" ?w1] that assms(1)
    by auto
  have "state (?ts ! k) = Pending"
    using assms(2,3) pend by (cases k) simp_all
  then have aw: "awaiting k js (incrementalFile w) ?r0"
    using assms(2,3) pif by (simp add: awaiting_def promiseAll_def)
  have "write_run env (pre @ k # post) w = runEvents env (pre @ k # post) ?r0"
    using assms(1) by (simp add: write_run_def Let_def)
  then show ?thesis
    using runEvents_rejects_at_first [OF aw assms(5,4)] by simp
qed

theorem write_rejects_before_all_settled_counterexample:
  "allPromise (write_run envFail [1] writer0) =
     Rejected (EleventyTemplateError (firstPassMessage aEntry) (RenderFailure ''unknown filter'')) \<and>
   map state (promises (write_run envFail [1] writer0)) =
     [Pending,
      Rejected (EleventyTemplateError (firstPassMessage aEntry) (RenderFailure ''unknown filter'')),
      Pending] \<and>
   allPromise (write_run envFail [1, 0, 2] writer0) =
     Rejected (EleventyTemplateError (firstPassMessage aEntry) (RenderFailure ''unknown filter'')) \<and>
   map state (promises (write_run envFail [1, 0, 2] writer0)) =
     [Fulfilled (Array []),
      Rejected (EleventyTemplateError (firstPassMessage aEntry) (RenderFailure ''unknown filter'')),
      Fulfilled (Array [Page ''_site/b.md''])] \<and>
   writeCount (runWriter (write_run envFail [1, 0, 2] writer0)) = 1"
  by code_simp

theorem write_rejects_at_first_rejection_witness:
  "fst (generateTemplates envFail (getFiles envFail) ''fs''
          (writer0\<lparr>passthroughIncrementalFile := incrementalFile writer0\<rparr>)) = None \<and>
   jobOutcome envFail (incrementalFile writer0) (CopyJob (getFiles envFail)) =
     Fulfilled (Array []) \<and>
   jobOutcome envFail (incrementalFile writer0) (GenerateJob aEntry FirstPass) =
     Rejected (EleventyTemplateError (firstPassMessage aEntry) (RenderFailure ''unknown filter'')) \<and>
   allPromise (write_run envFail ([0] @ 1 # [2]) writer0) =
     Rejected (EleventyTemplateError (firstPassMessage aEntry) (RenderFailure ''unknown filter''))"
proof -
  let ?w1 = "writer0\<lparr>passthroughIncrementalFile := incrementalFile writer0\<rparr>"
  let ?g = "generateTemplates envFail (getFiles envFail) ''fs'' ?w1"
  let ?js = "CopyJob (getFiles envFail) # map job (promises (snd ?g))"
  let ?e = "EleventyTemplateError (firstPassMessage aEntry) (RenderFailure ''unknown filter'')"
  have g: "fst ?g = None" by code_simp
  then have g': "?g = (None, snd ?g)" by (metis prod.collapse)
  have js: "?js = [CopyJob (getFiles envFail), GenerateJob aEntry FirstPass,
                   GenerateJob \<lparr>meTemplate = 1, meInputPath = ''b.md'', meOutputPath = ''_site/b.md''\<rparr> FirstPass]"
    by code_simp
  have o0: "jobOutcome envFail (incrementalFile writer0) (CopyJob (getFiles envFail)) =
              Fulfilled (Array [])"
    by code_simp
  have o1: "jobOutcome envFail (incrementalFile writer0) (GenerateJob aEntry FirstPass) = Rejected ?e"
    by code_simp
  have k: "(1::nat) < length ?js" by (simp add: js)
  have k1: "jobOutcome envFail (incrementalFile writer0) (?js ! 1) = Rejected ?e"
    by (simp add: js o1)
  have pre: "\<forall>j\<in>set [0]. j < length ?js \<longrightarrow>
               j \<noteq> 1 \<and> isFulfilled (jobOutcome envFail (incrementalFile writer0) (?js ! j))"
    by (simp add: js o0 isFulfilled_def)
  show ?thesis
    using g o0 o1 write_rejects_at_first_rejection [OF g' refl k k1 pre, of "[2]"]
    by simp
qed

subsection \<open>The second pass\<close>

text \<open>
  In no run of \<^verbatim>\<open>write()\<close> is there a promise of the second pass: the jobs of the
  promises are the passthrough copy and the first-pass generations, whatever the
  collaborators do and in whatever order the promises settle.
\<close>

lemma runEvents_jobs [simp]:
  "map job (promises (runEvents env sched r)) = map job (promises r)"
  unfolding runEvents_def by (induction sched arbitrary: r) simp_all

lemma write_run_no_second_pass:
  "GenerateJob me SecondPass \<notin> set (map job (promises (write_run env sched w)))"
proof -
  let ?w1 = "w\<lparr>passthroughIncrementalFile := incrementalFile w\<rparr>"
  obtain err r where g: "generateTemplates env (getFiles env) ''fs'' ?w1 = (err, r)"
    by (metis surj_pair)
  have first: "GenerateJob me SecondPass \<notin> set (map job (promises r))"
    using generateTemplates_first_pass_only [of _ env "getFiles env" "''fs''" ?w1] g
    by fastforce
  show ?thesis
  proof (cases err)
    case (Some e)
    with g first show ?thesis by (simp add: write_run_def Let_def)
  next
    case None
    with g first show ?thesis by (simp add: write_run_def Let_def)
  qed
qed

text \<open>
  Claim C1, on the code: an entry whose first generation fails with a premature content
  access and whose second generation would succeed. The second loop of
  \<^verbatim>\<open>generateTemplates\<close> runs in the job that created the first-pass promises, when no
  reaction has run yet and \<^verbatim>\<open>usedTemplateContentTooEarlyMap\<close> is still empty: the entry is
  collected when its promise settles, but no second-pass promise exists for it, it is
  never generated again, and the run is fulfilled with \<^verbatim>\<open>undefined\<close> in its place.
\<close>

theorem premature_entry_never_retried:
  "map job (promises (write_run envEarly [0, 1, 2] writer0)) =
     [CopyJob [''index.md'', ''feed.njk''], GenerateJob indexEntry FirstPass,
      GenerateJob feedEntry FirstPass] \<and>
   map state (promises (write_run envEarly [0, 1, 2] writer0)) =
     [Fulfilled (Array []), Fulfilled (Array [Page ''_site/index.md'']), Fulfilled Undefined] \<and>
   usedTemplateContentTooEarlyMap (write_run envEarly [0, 1, 2] writer0) = [feedEntry] \<and>
   allPromise (write_run envEarly [0, 1, 2] writer0) =
     Fulfilled [Array [], Array [Page ''_site/index.md''], Undefined] \<and>
   writeCount (runWriter (write_run envEarly [0, 1, 2] writer0)) = 1"
  by code_simp

text \<open>
  Claim C2, on the code: an entry whose every generation fails with a premature content
  access. The claim has the run fail with an error of the second pass; the code never
  starts a second pass, so the run is fulfilled, whatever the order of settlement, from
  \<^verbatim>\<open>write()\<close> as from \<^verbatim>\<open>getJSON()\<close>.
\<close>

theorem premature_in_every_pass_run_fulfilled:
  "generateMapEntry envCircular feedEntry 1 = Failed TemplateContentPrematureUseError \<and>
   generateMapEntry envCircular feedEntry 2 = Failed TemplateContentPrematureUseError \<and>
   allPromise (write_run envCircular [0, 1, 2] writer0) =
     Fulfilled [Array [], Array [Page ''_site/index.md''], Undefined] \<and>
   allPromise (write_run envCircular [2, 1, 0] writer0) =
     Fulfilled [Array [], Array [Page ''_site/index.md''], Undefined] \<and>
   fst (getJSON envCircular ''json'' [0, 1] writer0) =
     Fulfilled [Page ''_site/index.md'', Undefined]"
  by code_simp

subsection \<open>The counters\<close>

lemma settle_counters_le:
  "writeCount (runWriter r) \<le> writeCount (runWriter (settle env j r))"
  "skippedCount (runWriter r) \<le> skippedCount (runWriter (settle env j r))"
  by (simp_all add: settle_def Let_def jobEffect_writeCount_le)

lemma runEvents_counters_le:
  "writeCount (runWriter r) \<le> writeCount (runWriter (runEvents env sched r)) \<and>
   skippedCount (runWriter r) \<le> skippedCount (runWriter (runEvents env sched r))"
proof (induction sched arbitrary: r)
  case Nil
  then show ?case by (simp add: runEvents_def)
next
  case (Cons j sched)
  from Cons.IH [of "settle env j r"] settle_counters_le [of r env j]
  show ?case by (auto simp: runEvents_Cons)
qed

lemma generateTemplates_counters_le:
  "writeCount w \<le> writeCount (runWriter (snd (generateTemplates env paths to w))) \<and>
   skippedCount w \<le> skippedCount (runWriter (snd (generateTemplates env paths to w)))"
  by (simp add: generateTemplates_writer createTemplateMap_frame createTemplateMap_skipped_le)

lemma write_run_counters_le:
  "writeCount w \<le> writeCount (runWriter (write_run env sched w)) \<and>
   skippedCount w \<le> skippedCount (runWriter (write_run env sched w))"
proof -
  let ?w1 = "w\<lparr>passthroughIncrementalFile := incrementalFile w\<rparr>"
  obtain err r where g: "generateTemplates env (getFiles env) ''fs'' ?w1 = (err, r)"
    by (metis surj_pair)
  have le: "writeCount w \<le> writeCount (runWriter r)" "skippedCount w \<le> skippedCount (runWriter r)"
    using generateTemplates_counters_le [of ?w1 env "getFiles env" "''fs''"] g by simp_all
  show ?thesis
  proof (cases err)
    case (Some e)
    with g le show ?thesis by (simp add: write_run_def Let_def)
  next
    case None
    let ?r0 = "r\<lparr>promises := \<lparr>job = CopyJob (getFiles env), state = Pending\<rparr> # promises r,
                  allPromise := promiseAll (\<lparr>job = CopyJob (getFiles env), state = Pending\<rparr> # promises r)\<rparr>"
    have "write_run env sched w = runEvents env sched ?r0"
      using g None by (simp add: write_run_def Let_def)
    with runEvents_counters_le [of ?r0 env sched] le show ?thesis by simp
  qed
qed

lemma getJSON_counters_le:
  "writeCount w \<le> writeCount (runWriter (snd (getJSON env to sched w))) \<and>
   skippedCount w \<le> skippedCount (runWriter (snd (getJSON env to sched w)))"
proof -
  obtain err r where g: "generateTemplates env (getFiles env) to w = (err, r)"
    by (metis surj_pair)
  have le: "writeCount w \<le> writeCount (runWriter r)" "skippedCount w \<le> skippedCount (runWriter r)"
    using generateTemplates_counters_le [of w env "getFiles env" to] g by simp_all
  show ?thesis
  proof (cases err)
    case (Some e)
    with g le show ?thesis by (simp add: getJSON_def Let_def)
  next
    case None
    let ?r0 = "r\<lparr>allPromise := promiseAll (promises r)\<rparr>"
    have "snd (getJSON env to sched w) = runEvents env sched ?r0"
      using g None by (simp add: getJSON_def Let_def)
    with runEvents_counters_le [of ?r0 env sched] le show ?thesis by simp
  qed
qed

text \<open>
  Claim C9, as amended. \<^verbatim>\<open>restart()\<close> sets both counters to zero, and no other operation
  of the writer ever lowers one: a run (\<^verbatim>\<open>write()\<close>, \<^verbatim>\<open>getJSON()\<close>) only adds to them and
  does not reset them when it starts, so they accumulate over successive runs until
  \<^verbatim>\<open>restart()\<close> is called.
\<close>

theorem counters_reset_only_by_restart:
  "writeCount (applyOperation env Restart w) = 0 \<and>
   skippedCount (applyOperation env Restart w) = 0 \<and>
   (op \<noteq> Restart \<longrightarrow>
      writeCount w \<le> writeCount (applyOperation env op w) \<and>
      skippedCount w \<le> skippedCount (applyOperation env op w))"
proof (cases op)
  case (GenerateTemplates paths to sched)
  have "writeCount w \<le> writeCount (runWriter (snd (generateTemplates env paths to w)))"
    "skippedCount w \<le> skippedCount (runWriter (snd (generateTemplates env paths to w)))"
    using generateTemplates_counters_le [of w env paths to] by simp_all
  moreover have
    "writeCount (runWriter (snd (generateTemplates env paths to w))) \<le>
       writeCount (runWriter (runEvents env sched (snd (generateTemplates env paths to w))))"
    "skippedCount (runWriter (snd (generateTemplates env paths to w))) \<le>
       skippedCount (runWriter (runEvents env sched (snd (generateTemplates env paths to w))))"
    using runEvents_counters_le [of "snd (generateTemplates env paths to w)" env sched]
    by simp_all
  ultimately show ?thesis
    using GenerateTemplates by (simp add: applyOperation_def restart_def)
next
  case (CreateTemplateMap paths to)
  then show ?thesis
    by (simp add: applyOperation_def restart_def createTemplateMap_frame
        createTemplateMap_skipped_le)
qed (use write_run_counters_le [of w env] getJSON_counters_le [of w env] in
      \<open>simp_all add: applyOperation_def restart_def setDryRun_def\<close>)

theorem fresh_run_keeps_counters_counterexample:
  "incrementalFile beforeFreshRun = None \<and>
   writeCount beforeFreshRun = 2 \<and> skippedCount beforeFreshRun = 1 \<and>
   writeCount (applyOperation envInc (Write []) beforeFreshRun) = 2 \<and>
   skippedCount (applyOperation envInc (Write []) beforeFreshRun) = 1 \<and>
   writeCount (applyOperation envInc (Write [0, 1, 2]) beforeFreshRun) = 4 \<and>
   skippedCount (applyOperation envInc (Write [0, 1, 2]) beforeFreshRun) = 1"
  by code_simp

theorem counters_reset_only_by_restart_witness:
  "writeCount (applyOperation envInc Restart beforeFreshRun) = 0 \<and>
   skippedCount (applyOperation envInc Restart beforeFreshRun) = 0 \<and>
   Write [0, 1, 2] \<noteq> Restart \<and>
   writeCount beforeFreshRun \<le> writeCount (applyOperation envInc (Write [0, 1, 2]) beforeFreshRun) \<and>
   skippedCount beforeFreshRun \<le> skippedCount (applyOperation envInc (Write [0, 1, 2]) beforeFreshRun)"
  using counters_reset_only_by_restart [of envInc beforeFreshRun "Write [0, 1, 2]"]
  by simp

subsection \<open>Well-formed writers\<close>

text \<open>
  The writer that the constructor returns is well-formed and every operation keeps it so:
  the theorems that assume \<open>wf\<close> hold in every state the writer can reach.
\<close>

lemma wf_other_updates [simp]:
  "wf (w\<lparr>writeCount := n\<rparr>) = wf w"
  "wf (w\<lparr>wConfig := c\<rparr>) = wf w"
  "wf (w\<lparr>templateData := d\<rparr>) = wf w"
  "wf (w\<lparr>isVerbose := b\<rparr>) = wf w"
  "wf (w\<lparr>isDryRun := b\<rparr>) = wf w"
  "wf (w\<lparr>passthroughDryRun := b\<rparr>) = wf w"
  "wf (w\<lparr>isRunInitialBuild := b\<rparr>) = wf w"
  "wf (w\<lparr>isIncremental := b\<rparr>) = wf w"
  "wf (w\<lparr>incrementalFile := f\<rparr>) = wf w"
  "wf (w\<lparr>passthroughIncrementalFile := f\<rparr>) = wf w"
  by (simp_all add: wf_def)

lemma wf_TemplateWriter: "TemplateWriter d c = Inr w \<Longrightarrow> wf w"
  by (auto simp: TemplateWriter_def wf_def split: option.splits)

lemma wf_foldl_addPath:
  "wf w \<Longrightarrow> wf (foldl (addPathToTemplateMap env isFull isPass rel to) w ps)"
  by (induction ps arbitrary: w) (simp_all add: wf_addPathToTemplateMap)

lemma wf_addToTemplateMap:
  assumes "wf w"
  shows "wf (snd (addToTemplateMap env paths to w))"
proof -
  have c: "wf (snd (createTemplate w (the (incrementalFile w)) to))"
    using assms by (rule wf_createTemplate)
  show ?thesis
    using assms c
    by (auto simp: addToTemplateMap_def Let_def split_beta split: option.split
        intro!: wf_foldl_addPath)
qed

lemma wf_createTemplateMap:
  assumes "wf w"
  shows "wf (snd (createTemplateMap env paths to w))"
proof -
  have "wf (w\<lparr>templateMap := []\<rparr>)" using assms by simp
  then have "wf (snd (addToTemplateMap env paths to (w\<lparr>templateMap := []\<rparr>)))"
    by (rule wf_addToTemplateMap)
  then show ?thesis
    by (simp add: createTemplateMap_snd split: option.split)
qed

lemma wf_jobEffect: "wf (runWriter r) \<Longrightarrow> wf (runWriter (jobEffect env j r))"
  by (simp add: jobEffect_def Let_def split: job.split genOutcome.split pass.split)

lemma wf_settle: "wf (runWriter r) \<Longrightarrow> wf (runWriter (settle env j r))"
  by (simp add: settle_def Let_def wf_jobEffect)

lemma wf_runEvents: "wf (runWriter r) \<Longrightarrow> wf (runWriter (runEvents env sched r))"
  unfolding runEvents_def by (induction sched arbitrary: r) (simp_all add: wf_settle)

lemma wf_generateTemplates:
  "wf w \<Longrightarrow> wf (runWriter (snd (generateTemplates env paths to w)))"
  by (simp add: generateTemplates_writer wf_createTemplateMap)

lemma wf_write_run:
  assumes "wf w"
  shows "wf (runWriter (write_run env sched w))"
proof -
  let ?w1 = "w\<lparr>passthroughIncrementalFile := incrementalFile w\<rparr>"
  have w1: "wf ?w1" using assms by simp
  obtain err r where g: "generateTemplates env (getFiles env) ''fs'' ?w1 = (err, r)"
    by (metis surj_pair)
  have r: "wf (runWriter r)"
    using wf_generateTemplates [OF w1, of env "getFiles env" "''fs''"] g by simp
  show ?thesis
  proof (cases err)
    case (Some e)
    with g r show ?thesis by (simp add: write_run_def Let_def)
  next
    case None
    with g show ?thesis
      by (simp add: write_run_def Let_def r wf_runEvents)
  qed
qed

lemma wf_getJSON:
  assumes "wf w"
  shows "wf (runWriter (snd (getJSON env to sched w)))"
proof -
  obtain err r where g: "generateTemplates env (getFiles env) to w = (err, r)"
    by (metis surj_pair)
  have r: "wf (runWriter r)"
    using wf_generateTemplates [OF assms, of env "getFiles env" to] g by simp
  show ?thesis
  proof (cases err)
    case (Some e)
    with g r show ?thesis by (simp add: getJSON_def Let_def)
  next
    case None
    with g show ?thesis
      by (simp add: getJSON_def Let_def r wf_runEvents)
  qed
qed

lemma wf_applyOperation: "wf w \<Longrightarrow> wf (applyOperation env op w)"
  by (cases op)
    (simp_all add: applyOperation_def restart_def setDryRun_def wf_createTemplate
      wf_createTemplateMap wf_generateTemplates wf_runEvents wf_write_run wf_getJSON)

subsection \<open>The handles after the main loop\<close>

text \<open>
  A step of the main loop for one path leaves the handles of the other paths, and their
  cache entries, as they were.
\<close>

lemma createTemplate_cached_handle:
  assumes "templatePathCache w p = Some j" and "j < length (heap w)"
  shows "heap (snd (createTemplate w p to)) ! j =
         reset (setIsVerbose (isVerbose w) (setDryRunT (isDryRun w)
           (setTemplateData (templateData w) (heap w ! j))))"
  using assms by (simp add: createTemplate_def updT_def)

lemma createTemplate_other:
  assumes "wf w" and "q \<noteq> p" and "templatePathCache w p = Some j"
  shows "templatePathCache (snd (createTemplate w q to)) p = Some j"
    and "heap (snd (createTemplate w q to)) ! j = heap w ! j"
    and "fst (fst (createTemplate w q to)) \<noteq> j"
proof -
  from assms(1,3) have j: "j < length (heap w)" "inputPath (heap w ! j) = p"
    by (auto simp: wf_def)
  show c: "templatePathCache (snd (createTemplate w q to)) p = Some j"
    using assms(2,3) by (cases "templatePathCache w q") (simp_all add: createTemplate_def Let_def)
  show n: "fst (fst (createTemplate w q to)) \<noteq> j"
  proof (cases "templatePathCache w q")
    case None
    then show ?thesis using j createTemplate_new(1) [OF None, of to] by simp
  next
    case (Some i)
    with assms(1) have "inputPath (heap w ! i) = q" by (simp add: wf_def)
    with j assms(2) have "i \<noteq> j" by auto
    then show ?thesis using createTemplate_cached(1) [OF Some, of to] by simp
  qed
  show "heap (snd (createTemplate w q to)) ! j = heap w ! j"
  proof (cases "templatePathCache w q")
    case None
    then show ?thesis using j
      by (simp add: createTemplate_def Let_def updT_def nth_append)
  next
    case (Some i)
    with n have "i \<noteq> j" using createTemplate_cached(1) [OF Some, of to] by simp
    with Some show ?thesis
      by (simp add: createTemplate_def Let_def updT_def)
  qed
qed

lemma createTemplate_other_none:
  "q \<noteq> p \<Longrightarrow> templatePathCache w p = None \<Longrightarrow>
   templatePathCache (snd (createTemplate w q to)) p = None"
  by (cases "templatePathCache w q") (simp_all add: createTemplate_def Let_def)

lemma createTemplate_heap_le: "length (heap w) \<le> length (heap (snd (createTemplate w q to)))"
  by (cases "templatePathCache w q") (simp_all add: createTemplate_def Let_def)

lemma addPathToTemplateMap_flags [simp]:
  "isVerbose (addPathToTemplateMap env isFull isPass rel to w p) = isVerbose w"
  "isDryRun (addPathToTemplateMap env isFull isPass rel to w p) = isDryRun w"
  "templateData (addPathToTemplateMap env isFull isPass rel to w p) = templateData w"
  by (simp_all add: addPathToTemplateMap_def Let_def split_beta templateMapAdd_def)

lemma foldl_addPath_flags [simp]:
  "isVerbose (foldl (addPathToTemplateMap env isFull isPass rel to) w ps) = isVerbose w"
  "isDryRun (foldl (addPathToTemplateMap env isFull isPass rel to) w ps) = isDryRun w"
  "templateData (foldl (addPathToTemplateMap env isFull isPass rel to) w ps) = templateData w"
  by (induction ps arbitrary: w) simp_all

lemma addPath_heap_le:
  "length (heap w) \<le> length (heap (addPathToTemplateMap env isFull isPass rel to w q))"
  using createTemplate_heap_le [of "w\<lparr>trace := trace w @ [Visited q]\<rparr>" q to]
  by (simp add: addPathToTemplateMap_def Let_def split_beta)

lemma addPath_other:
  assumes "wf w" and "q \<noteq> p" and "templatePathCache w p = Some j"
  shows "templatePathCache (addPathToTemplateMap env isFull isPass rel to w q) p = Some j \<and>
         heap (addPathToTemplateMap env isFull isPass rel to w q) ! j = heap w ! j"
proof -
  let ?wv = "w\<lparr>trace := trace w @ [Visited q]\<rparr>"
  have wfv: "wf ?wv" using assms(1) by simp
  have cv: "templatePathCache ?wv p = Some j" using assms(3) by simp
  note o = createTemplate_other [OF wfv assms(2) cv, of to]
  have ne: "j \<noteq> fst (fst (createTemplate ?wv q to))" using o(3) by simp
  show ?thesis
    using o(1,2) ne assms(3)
    by (simp add: addPathToTemplateMap_def Let_def split_beta)
qed

lemma addPath_other_none:
  assumes "q \<noteq> p" and "templatePathCache w p = None"
  shows "templatePathCache (addPathToTemplateMap env isFull isPass rel to w q) p = None"
  using createTemplate_other_none [OF assms(1), of "w\<lparr>trace := trace w @ [Visited q]\<rparr>" to] assms(2)
  by (simp add: addPathToTemplateMap_def Let_def split_beta)

lemma foldl_addPath_heap_le:
  "length (heap w) \<le> length (heap (foldl (addPathToTemplateMap env isFull isPass rel to) w qs))"
proof (induction qs arbitrary: w)
  case Nil
  then show ?case by simp
next
  case (Cons q qs)
  from Cons.IH [of "addPathToTemplateMap env isFull isPass rel to w q"]
    addPath_heap_le [of w env isFull isPass rel to q]
  show ?case by simp
qed

lemma foldl_addPath_other:
  assumes "wf w" and "p \<notin> set qs" and "templatePathCache w p = Some j"
  shows "templatePathCache (foldl (addPathToTemplateMap env isFull isPass rel to) w qs) p = Some j \<and>
         heap (foldl (addPathToTemplateMap env isFull isPass rel to) w qs) ! j = heap w ! j"
  using assms
proof (induction qs arbitrary: w)
  case Nil
  then show ?case by simp
next
  case (Cons q qs)
  from Cons.prems have qp: "q \<noteq> p" "p \<notin> set qs" by auto
  note s = addPath_other [OF Cons.prems(1) qp(1) Cons.prems(3), of env isFull isPass rel to]
  have w': "wf (addPathToTemplateMap env isFull isPass rel to w q)"
    using Cons.prems(1) by (rule wf_addPathToTemplateMap)
  from Cons.IH [OF w' qp(2)] s show ?case by simp
qed

lemma foldl_addPath_other_none:
  assumes "p \<notin> set qs" and "templatePathCache w p = None"
  shows "templatePathCache (foldl (addPathToTemplateMap env isFull isPass rel to) w qs) p = None"
  using assms
proof (induction qs arbitrary: w)
  case Nil
  then show ?case by simp
next
  case (Cons q qs)
  from Cons.prems have qp: "q \<noteq> p" "p \<notin> set qs" by auto
  from Cons.IH [OF qp(2)] addPath_other_none [OF qp(1) Cons.prems(2)]
  show ?case by simp
qed

text \<open>
  One step of the main loop in a run with no incremental file and render suppression
  active, for a path that has an engine.
\<close>

lemma full_run_step:
  assumes "wf w" and "\<not> truthy (incrementalFile w)" and "\<not> isRunInitialBuild w"
    and "hasEngine env p" and "\<not> isPass" and "\<not> (isFull \<and> incrementalFile w = Some p)"
  shows "let w' = addPathToTemplateMap env isFull isPass rel to w p in
           (case templatePathCache w p of
              None \<Rightarrow> templatePathCache w' p = Some (length (heap w)) \<and>
                      length (heap w) < length (heap w') \<and>
                      renderableOverride (heap w' ! length (heap w)) = Some False
            | Some j \<Rightarrow> templatePathCache w' p = Some j \<and>
                        heap w' ! j =
                          resetCaches None (setRenderableOverride None
                            (reset (setIsVerbose (isVerbose w) (setDryRunT (isDryRun w)
                               (setTemplateData (templateData w) (heap w ! j)))))))"
proof -
  let ?wv = "w\<lparr>trace := trace w @ [Visited p]\<rparr>"
  have wfv: "wf ?wv" using assms(1) by simp
  obtain i c w1 where r:
    "createTemplate ?wv p to = ((i, c), w1)"
    "i < length (heap w1)"
    "templatePathCache w1 p = Some i"
    "c = (templatePathCache ?wv p \<noteq> None)"
    using createTemplate_result [OF wfv, of p to] by metis
  have f1: "incrementalFile w1 = incrementalFile w" "isRunInitialBuild w1 = isRunInitialBuild w"
    using createTemplate_fields [of ?wv p to] r(1) by simp_all
  have nf: "(isFull \<and> incrementalFile w = Some p) = False" using assms(6) by simp
  show ?thesis
  proof (cases "templatePathCache w p")
    case None
    then have "i = length (heap w)"
      using createTemplate_new(1) [of ?wv p to] r(1) by simp
    with None show ?thesis
      unfolding addPathToTemplateMap_def Let_def
      using assms(2-5) r f1
      by (simp add: nf setRenderableOverride_def)
  next
    case (Some j)
    then have ij: "i = j"
      using createTemplate_cached(1) [of ?wv p j to] r(1) by simp
    from assms(1) Some have jl: "j < length (heap w)" by (simp add: wf_def)
    have h1: "heap w1 ! j = reset (setIsVerbose (isVerbose w) (setDryRunT (isDryRun w)
                (setTemplateData (templateData w) (heap w ! j))))"
      using createTemplate_cached_handle [of ?wv p j to] Some jl r(1) by simp
    from Some ij show ?thesis
      unfolding addPathToTemplateMap_def Let_def
      using assms(2-5) r f1 h1
      by (simp add: nf)
  qed
qed

text \<open>
  Claim C8. A run of \<^verbatim>\<open>_addToTemplateMap\<close> with no incremental file and render suppression
  active (\<open>isRunInitialBuild\<close> false), over a listing without repetitions. For every
  path of the listing that has an engine: when no handle was cached for it, the run
  creates one (a new object of the heap) and leaves it with the render override
  \<^verbatim>\<open>false\<close>; when a handle was cached, it is still the handle of the path, its override
  is \<^verbatim>\<open>undefined\<close>, and it is the handle as it was before the run after the rebinding
  of \<^verbatim>\<open>_createTemplate\<close>, \<^verbatim>\<open>setRenderableOverride(undefined)\<close> and \<^verbatim>\<open>resetCaches()\<close>, so
  whatever \<^verbatim>\<open>resetCaches()\<close> clears is cleared. (The last hypothesis holds whenever the
  incremental file is \<^verbatim>\<open>null\<close> or \<^verbatim>\<open>undefined\<close>, and for every path but the empty string
  otherwise.)
\<close>

theorem full_run_render_override:
  assumes "wf w" and "\<not> truthy (incrementalFile w)" and "\<not> isRunInitialBuild w"
    and "distinct paths" and "p \<in> set paths" and "hasEngine env p"
    and "incrementalFile w \<noteq> Some p"
  shows "let w' = snd (addToTemplateMap env paths to w) in
           (case templatePathCache w p of
              None \<Rightarrow>
                (\<exists>h. templatePathCache w' p = Some h \<and> length (heap w) \<le> h \<and>
                     h < length (heap w') \<and> renderableOverride (heap w' ! h) = Some False)
            | Some j \<Rightarrow>
                templatePathCache w' p = Some j \<and>
                renderableOverride (heap w' ! j) = None \<and>
                \<not> bookkeeping (heap w' ! j) \<and>
                heap w' ! j =
                  resetCaches None (setRenderableOverride None
                    (reset (setIsVerbose (isVerbose w) (setDryRunT (isDryRun w)
                       (setTemplateData (templateData w) (heap w ! j)))))))"
proof -
  let ?full = "isFullTemplateFile env paths (incrementalFile w)"
  let ?step = "addPathToTemplateMap env ?full False {} to"
  have pass: "isIncrementalFileAPassthroughCopy env w paths = False"
    using assms(2) by (simp add: isIncrementalFileAPassthroughCopy_def)
  have res: "snd (addToTemplateMap env paths to w) = foldl ?step w paths"
    using assms(2) by (simp add: addToTemplateMap_def Let_def pass)
  obtain xs ys where sp: "paths = xs @ p # ys"
    using assms(5) by (meson split_list)
  with assms(4) have nin: "p \<notin> set xs" "p \<notin> set ys" by auto
  define w1 where "w1 = foldl ?step w xs"
  define w2 where "w2 = ?step w1 p"
  have fin: "foldl ?step w paths = foldl ?step w2 ys"
    by (simp add: sp w1_def w2_def)
  have wf1: "wf w1" unfolding w1_def using assms(1) by (rule wf_foldl_addPath)
  have wf2: "wf w2" unfolding w2_def using wf1 by (rule wf_addPathToTemplateMap)
  have fl: "incrementalFile w1 = incrementalFile w" "isRunInitialBuild w1 = isRunInitialBuild w"
    "isVerbose w1 = isVerbose w" "isDryRun w1 = isDryRun w" "templateData w1 = templateData w"
    by (simp_all add: w1_def)
  have hy: "\<not> truthy (incrementalFile w1)" "\<not> isRunInitialBuild w1"
    "\<not> (?full \<and> incrementalFile w1 = Some p)"
    using assms(2,3,7) fl by simp_all
  note st = full_run_step [OF wf1 hy(1,2) assms(6) _ hy(3), of False "{}" to,
      folded w2_def, unfolded Let_def]
  show ?thesis
  proof (cases "templatePathCache w p")
    case None
    have n1: "templatePathCache w1 p = None"
      unfolding w1_def using nin(1) None by (rule foldl_addPath_other_none)
    have le1: "length (heap w) \<le> length (heap w1)"
      unfolding w1_def by (rule foldl_addPath_heap_le)
    from st n1 have s2: "templatePathCache w2 p = Some (length (heap w1))"
      "length (heap w1) < length (heap w2)"
      "renderableOverride (heap w2 ! length (heap w1)) = Some False"
      by simp_all
    note o = foldl_addPath_other [OF wf2 nin(2) s2(1), of env ?full False "{}" to]
    have le2: "length (heap w2) \<le> length (heap (foldl ?step w2 ys))"
      by (rule foldl_addPath_heap_le)
    show ?thesis
      using None o s2 le1 le2
      by (auto simp: Let_def res fin intro!: exI [of _ "length (heap w1)"])
  next
    case (Some j)
    have c1: "templatePathCache w1 p = Some j \<and> heap w1 ! j = heap w ! j"
      unfolding w1_def using assms(1) nin(1) Some by (rule foldl_addPath_other)
    from st c1 fl have s2: "templatePathCache w2 p = Some j"
      "heap w2 ! j = resetCaches None (setRenderableOverride None
         (reset (setIsVerbose (isVerbose w) (setDryRunT (isDryRun w)
            (setTemplateData (templateData w) (heap w ! j))))))"
      by simp_all
    note o = foldl_addPath_other [OF wf2 nin(2) s2(1), of env ?full False "{}" to]
    show ?thesis
      using Some o s2
      by (simp add: Let_def res fin resetCaches_def setRenderableOverride_def)
  qed
qed

theorem full_run_render_override_witness:
  "wf writerWatch \<and> \<not> truthy (incrementalFile writerWatch) \<and>
   \<not> isRunInitialBuild writerWatch \<and> distinct (getFiles envInc) \<and>
   ''b.md'' \<in> set (getFiles envInc) \<and> hasEngine envInc ''b.md'' \<and>
   incrementalFile writerWatch \<noteq> Some ''b.md'' \<and>
   templatePathCache writerWatch ''b.md'' = Some 0 \<and>
   bookkeeping (heap writerWatch ! 0) \<and>
   renderableOverride (heap writerWatch ! 0) = Some False \<and>
   templatePathCache (snd (addToTemplateMap envInc (getFiles envInc) ''fs'' writerWatch)) ''b.md''
     = Some 0 \<and>
   renderableOverride
     (heap (snd (addToTemplateMap envInc (getFiles envInc) ''fs'' writerWatch)) ! 0) = None \<and>
   \<not> bookkeeping (heap (snd (addToTemplateMap envInc (getFiles envInc) ''fs'' writerWatch)) ! 0) \<and>
   templatePathCache writerWatch ''a.md'' = None \<and>
   templatePathCache (snd (addToTemplateMap envInc (getFiles envInc) ''fs'' writerWatch)) ''a.md''
     = Some 1 \<and>
   renderableOverride
     (heap (snd (addToTemplateMap envInc (getFiles envInc) ''fs'' writerWatch)) ! 1) = Some False"
proof -
  have h: "\<not> truthy (incrementalFile writerWatch)" "\<not> isRunInitialBuild writerWatch"
    "distinct (getFiles envInc)" "''b.md'' \<in> set (getFiles envInc)" "hasEngine envInc ''b.md''"
    "incrementalFile writerWatch \<noteq> Some ''b.md''"
    by code_simp+
  have c: "templatePathCache writerWatch ''b.md'' = Some 0"
    "bookkeeping (heap writerWatch ! 0)"
    "renderableOverride (heap writerWatch ! 0) = Some False"
    by code_simp+
  have a: "templatePathCache writerWatch ''a.md'' = None"
    "templatePathCache (snd (addToTemplateMap envInc (getFiles envInc) ''fs'' writerWatch)) ''a.md''
       = Some 1"
    "renderableOverride
       (heap (snd (addToTemplateMap envInc (getFiles envInc) ''fs'' writerWatch)) ! 1) = Some False"
    by code_simp+
  show ?thesis
    using wf_writerWatch h c a
      full_run_render_override [OF wf_writerWatch h, of "''fs''"]
    by (simp add: Let_def resetCaches_def setRenderableOverride_def)
qed

lemma incremental_step_skipped:
  assumes "wf w" and "truthy (incrementalFile w)" and "\<not> isPass"
  shows "skippedCount (addPathToTemplateMap env isFull isPass rel to w q) =
         skippedCount w +
           (if hasEngine env q \<and> \<not> (isFull \<and> incrementalFile w = Some q) \<and>
               \<not> (stripLeadingDotSlash q \<in> rel \<or>
                   isFileRelevantToThisTemplate env q (the (incrementalFile w)) isFull)
            then 1 else 0)"
proof (cases "hasEngine env q \<and> \<not> (isFull \<and> incrementalFile w = Some q)")
  case False
  then show ?thesis
    using assms(3) by (auto simp: addPathToTemplateMap_def Let_def)
next
  case True
  then have h: "hasEngine env q" "\<not> (isFull \<and> incrementalFile w = Some q)" by simp_all
  from incremental_step [OF assms(1,2) h(1) assms(3) h(2), of rel to] True
  show ?thesis by (auto simp: Let_def split: if_splits)
qed

lemma incremental_loop_skipped:
  assumes "wf w" and "truthy (incrementalFile w)" and "\<not> isPass"
  shows "skippedCount (foldl (addPathToTemplateMap env isFull isPass rel to) w qs) =
         skippedCount w +
           length (filter (\<lambda>q. hasEngine env q \<and> \<not> (isFull \<and> incrementalFile w = Some q) \<and>
               \<not> (stripLeadingDotSlash q \<in> rel \<or>
                   isFileRelevantToThisTemplate env q (the (incrementalFile w)) isFull)) qs)"
  using assms(1,2)
proof (induction qs arbitrary: w)
  case Nil
  then show ?case by simp
next
  case (Cons q qs)
  let ?w' = "addPathToTemplateMap env isFull isPass rel to w q"
  have w': "wf ?w'" using Cons.prems(1) by (rule wf_addPathToTemplateMap)
  have t': "truthy (incrementalFile ?w')" using Cons.prems(2) by simp
  from Cons.IH [OF w' t'] incremental_step_skipped [OF Cons.prems assms(3), of env isFull rel to q]
  show ?case by simp
qed

lemma createTemplate_keeps:
  "templatePathCache w p = Some j \<Longrightarrow>
   templatePathCache (snd (createTemplate w q to)) p = Some j"
  by (cases "templatePathCache w q") (auto simp: createTemplate_def Let_def)

lemma addPath_keeps:
  assumes "templatePathCache w p = Some j"
  shows "templatePathCache (addPathToTemplateMap env isFull isPass rel to w q) p = Some j"
  using createTemplate_keeps [of "w\<lparr>trace := trace w @ [Visited q]\<rparr>" p j q to] assms
  by (simp add: addPathToTemplateMap_def Let_def split_beta)

text \<open>
  The writer at the start of the main loop of an incremental run: the writer as it was,
  or as the pre-registration of the changed template leaves it, which touches only the
  handle of the changed path.
\<close>

lemma incremental_loop_start:
  assumes "wf w" and "incrementalFile w = Some f" and "f \<noteq> []"
    and "isFullTemplateFile env paths (incrementalFile w) \<longrightarrow> dataCascade env f = None"
  obtains w0 where
    "snd (addToTemplateMap env paths to w) =
       foldl (addPathToTemplateMap env (isFullTemplateFile env paths (incrementalFile w))
                (isIncrementalFileAPassthroughCopy env w paths)
                (if isFullTemplateFile env paths (incrementalFile w)
                 then setupDependencyGraphChangesForIncrementalFile env f else {}) to)
         w0 paths"
    "wf w0" "incrementalFile w0 = Some f" "isRunInitialBuild w0 = isRunInitialBuild w"
    "skippedCount w0 = skippedCount w"
    "\<And>p. p \<noteq> f \<Longrightarrow> templatePathCache w0 p = templatePathCache w p"
    "\<And>p j. p \<noteq> f \<Longrightarrow> templatePathCache w p = Some j \<Longrightarrow> heap w0 ! j = heap w ! j"
    "length (heap w) \<le> length (heap w0)"
proof (cases "isFullTemplateFile env paths (incrementalFile w)")
  case False
  have "snd (addToTemplateMap env paths to w) =
       foldl (addPathToTemplateMap env (isFullTemplateFile env paths (incrementalFile w))
                (isIncrementalFileAPassthroughCopy env w paths)
                (if isFullTemplateFile env paths (incrementalFile w)
                 then setupDependencyGraphChangesForIncrementalFile env f else {}) to)
         w paths"
    using False by (simp add: addToTemplateMap_def Let_def)
  then show thesis
    using assms(1,2) by (rule that) simp_all
next
  case True
  with assms(4) have dc: "dataCascade env f = None" by simp
  let ?pass = "isIncrementalFileAPassthroughCopy env w paths"
  obtain i c w1 where r:
    "createTemplate w f to = ((i, c), w1)"
    "i < length (heap w1)"
    "inputPath (heap w1 ! i) = f"
    "wf w1"
    using createTemplate_result [OF assms(1), of f to] by metis
  have f1: "incrementalFile w1 = Some f" "trace w1 = trace w" "templateMap w1 = templateMap w"
    "isRunInitialBuild w1 = isRunInitialBuild w" "skippedCount w1 = skippedCount w"
    using createTemplate_fields [of w f to] r(1) assms(2) by simp_all
  define w3 where "w3 = (let w2 = (if c then updT i (resetCaches None) w1 else w1)
                         in if \<not> isRunInitialBuild w2
                            then updT i (setRenderableOverride None) w2 else w2)"
  define w6 where "w6 = (templateMapAdd i w3)\<lparr>trace := trace w @
      [Registered f, Awaited f, DependencyGraphChanges f, AddToGlobalDependencyGraph]\<rparr>"
  have w6: "wf w6" "incrementalFile w6 = Some f" "isRunInitialBuild w6 = isRunInitialBuild w"
    "skippedCount w6 = skippedCount w" "templatePathCache w6 = templatePathCache w1"
    "length (heap w6) = length (heap w1)"
    using r f1 by (simp_all add: w6_def w3_def Let_def)
  have h6: "heap w6 ! j = heap w1 ! j" if "j \<noteq> i" for j
    using that by (simp add: w6_def w3_def Let_def)
  have tr: "truthy (incrementalFile w)" using assms(2,3) by (simp add: truthy_def)
  have res: "snd (addToTemplateMap env paths to w) =
       foldl (addPathToTemplateMap env (isFullTemplateFile env paths (incrementalFile w)) ?pass
                (if isFullTemplateFile env paths (incrementalFile w)
                 then setupDependencyGraphChangesForIncrementalFile env f else {}) to)
         w6 paths"
    using assms(2) True tr r(1,3) f1 dc
    by (simp add: addToTemplateMap_def Let_def w3_def w6_def templateMapAdd_def)
  have cache: "templatePathCache w6 p = templatePathCache w p" if "p \<noteq> f" for p
  proof (cases "templatePathCache w p")
    case None
    with createTemplate_other_none [of f p w to] that r(1) w6(5) show ?thesis by simp
  next
    case (Some j)
    with createTemplate_other(1) [OF assms(1), of f p j to] that r(1) w6(5) show ?thesis by simp
  qed
  have hp: "heap w6 ! j = heap w ! j" if "p \<noteq> f" "templatePathCache w p = Some j" for p j
  proof -
    from createTemplate_other(2,3) [OF assms(1) _ that(2), of f to] that(1) r(1)
    have "heap w1 ! j = heap w ! j" "i \<noteq> j" by simp_all
    with h6 [of j] show ?thesis by simp
  qed
  have le: "length (heap w) \<le> length (heap w6)"
    using createTemplate_heap_le [of w f to] r(1) w6(6) by simp
  show thesis
    using res w6(1-4) cache hp le by (rule that)
qed

text \<open>
  Claim C5. An incremental run of \<^verbatim>\<open>_addToTemplateMap\<close> (the incremental file \<open>f\<close> is
  set) that reaches the main loop and is not short-circuited by the passthrough gate,
  over a listing without repetitions. The deletion-relevant set is the one the run
  records: the answer of \<^verbatim>\<open>setupDependencyGraphChangesForIncrementalFile\<close> when \<open>f\<close> is a
  full template, the empty set otherwise; a path is relevant when it is in that set
  (without a leading \<^verbatim>\<open>./\<close>) or its handle reports itself relevant to \<open>f\<close>. After the run,
  for every path of the listing with an engine other than \<open>f\<close>, its handle is the one that
  was cached for it, if one was, and: when the path is relevant, the
  data and render caches of its handle are cleared and, under render suppression
  (\<open>isRunInitialBuild\<close> false), the override is \<^verbatim>\<open>undefined\<close>; otherwise the data cache is
  cleared, the read and render caches are what they were before the run, the handle is
  marked dry-run-via-incremental, and under suppression the override is \<^verbatim>\<open>false\<close>. The
  skipped counter has grown by one for each path that is processed and not relevant.
\<close>

theorem incremental_path_invalidation:
  assumes "wf w" and "incrementalFile w = Some f" and "f \<noteq> []"
    and "\<not> isIncrementalFileAPassthroughCopy env w paths"
    and "isFullTemplateFile env paths (incrementalFile w) \<longrightarrow> dataCascade env f = None"
    and "distinct paths" and "p \<in> set paths" and "hasEngine env p" and "p \<noteq> f"
  shows "let w' = snd (addToTemplateMap env paths to w);
             isFull = isFullTemplateFile env paths (incrementalFile w);
             rel = (if isFull then setupDependencyGraphChangesForIncrementalFile env f else {});
             relevant = (\<lambda>q. stripLeadingDotSlash q \<in> rel \<or>
                              isFileRelevantToThisTemplate env q f isFull)
         in skippedCount w' =
              skippedCount w +
                length (filter (\<lambda>q. hasEngine env q \<and> \<not> (isFull \<and> q = f) \<and> \<not> relevant q)
                          paths) \<and>
            (\<exists>h. templatePathCache w' p = Some h \<and> h < length (heap w') \<and>
               templatePathCache w p \<in> {None, Some h} \<and>
               (if relevant p
                then \<not> dataCache (heap w' ! h) \<and> \<not> renderCache (heap w' ! h) \<and>
                     (\<not> isRunInitialBuild w \<longrightarrow> renderableOverride (heap w' ! h) = None)
                else \<not> dataCache (heap w' ! h) \<and>
                     readCache (heap w' ! h) =
                       (case templatePathCache w p of
                          Some j \<Rightarrow> readCache (heap w ! j) | None \<Rightarrow> False) \<and>
                     renderCache (heap w' ! h) =
                       (case templatePathCache w p of
                          Some j \<Rightarrow> renderCache (heap w ! j) | None \<Rightarrow> False) \<and>
                     dryRunViaIncremental (heap w' ! h) \<and>
                     (\<not> isRunInitialBuild w \<longrightarrow>
                        renderableOverride (heap w' ! h) = Some False)))"
proof -
  let ?full = "isFullTemplateFile env paths (incrementalFile w)"
  let ?pass = "isIncrementalFileAPassthroughCopy env w paths"
  let ?rel = "if ?full then setupDependencyGraphChangesForIncrementalFile env f else {}"
  let ?relevant = "\<lambda>q. stripLeadingDotSlash q \<in> ?rel \<or>
                        isFileRelevantToThisTemplate env q f ?full"
  let ?step = "addPathToTemplateMap env ?full ?pass ?rel to"
  obtain w0 where w0:
    "snd (addToTemplateMap env paths to w) = foldl ?step w0 paths"
    "wf w0" "incrementalFile w0 = Some f" "isRunInitialBuild w0 = isRunInitialBuild w"
    "skippedCount w0 = skippedCount w"
    "\<And>p. p \<noteq> f \<Longrightarrow> templatePathCache w0 p = templatePathCache w p"
    "\<And>p j. p \<noteq> f \<Longrightarrow> templatePathCache w p = Some j \<Longrightarrow> heap w0 ! j = heap w ! j"
    using incremental_loop_start [OF assms(1,2,3,5), of to] by metis
  have t0: "truthy (incrementalFile w0)" using w0(3) assms(3) by (simp add: truthy_def)
  have sk: "skippedCount (foldl ?step w0 paths) =
            skippedCount w +
              length (filter (\<lambda>q. hasEngine env q \<and> \<not> (?full \<and> q = f) \<and> \<not> ?relevant q) paths)"
  proof -
    have "filter (\<lambda>q. hasEngine env q \<and> \<not> (?full \<and> incrementalFile w0 = Some q) \<and>
               \<not> (stripLeadingDotSlash q \<in> ?rel \<or>
                   isFileRelevantToThisTemplate env q (the (incrementalFile w0)) ?full)) paths =
          filter (\<lambda>q. hasEngine env q \<and> \<not> (?full \<and> q = f) \<and> \<not> ?relevant q) paths"
      by (rule filter_cong) (auto simp: w0(3))
    with incremental_loop_skipped [OF w0(2) t0 assms(4), of env ?full ?rel to paths] w0(5)
    show ?thesis by simp
  qed
  obtain xs ys where sp: "paths = xs @ p # ys"
    using assms(7) by (meson split_list)
  with assms(6) have nin: "p \<notin> set xs" "p \<notin> set ys" by auto
  define w1 where "w1 = foldl ?step w0 xs"
  define w2 where "w2 = ?step w1 p"
  have fin: "foldl ?step w0 paths = foldl ?step w2 ys"
    by (simp add: sp w1_def w2_def)
  have wf1: "wf w1" unfolding w1_def using w0(2) by (rule wf_foldl_addPath)
  have wf2: "wf w2" unfolding w2_def using wf1 by (rule wf_addPathToTemplateMap)
  have fl: "incrementalFile w1 = Some f" "isRunInitialBuild w1 = isRunInitialBuild w"
    using w0(3,4) by (simp_all add: w1_def)
  have t1: "truthy (incrementalFile w1)" using fl(1) assms(3) by (simp add: truthy_def)
  have ns: "\<not> (?full \<and> incrementalFile w1 = Some p)" using fl(1) assms(9) by simp
  have hb: "templatePathCache w1 p = templatePathCache w p \<and>
            (\<forall>j. templatePathCache w p = Some j \<longrightarrow> heap w1 ! j = heap w ! j)"
  proof (cases "templatePathCache w p")
    case None
    then have "templatePathCache w0 p = None" using w0(6) [OF assms(9)] by simp
    with nin(1) have "templatePathCache w1 p = None"
      unfolding w1_def by (rule foldl_addPath_other_none)
    with None show ?thesis by simp
  next
    case (Some j)
    then have c0: "templatePathCache w0 p = Some j" using w0(6) [OF assms(9)] by simp
    have "templatePathCache w1 p = Some j \<and> heap w1 ! j = heap w0 ! j"
      unfolding w1_def using w0(2) nin(1) c0 by (rule foldl_addPath_other)
    with Some w0(7) [OF assms(9) Some] show ?thesis by simp
  qed
  have before:
    "(case templatePathCache w1 p of Some j \<Rightarrow> readCache (heap w1 ! j) | None \<Rightarrow> False) =
     (case templatePathCache w p of Some j \<Rightarrow> readCache (heap w ! j) | None \<Rightarrow> False)"
    "(case templatePathCache w1 p of Some j \<Rightarrow> renderCache (heap w1 ! j) | None \<Rightarrow> False) =
     (case templatePathCache w p of Some j \<Rightarrow> renderCache (heap w ! j) | None \<Rightarrow> False)"
    using hb by (cases "templatePathCache w p"; simp)+
  from incremental_step [OF wf1 t1 assms(8,4) ns, of ?rel to, folded w2_def, unfolded Let_def]
  obtain h where h: "templatePathCache w2 p = Some h" "h < length (heap w2)"
    and hp: "if ?relevant p
       then \<not> dataCache (heap w2 ! h) \<and> \<not> renderCache (heap w2 ! h) \<and>
            (\<not> isRunInitialBuild w \<longrightarrow> renderableOverride (heap w2 ! h) = None)
       else \<not> dataCache (heap w2 ! h) \<and>
            readCache (heap w2 ! h) =
              (case templatePathCache w p of Some j \<Rightarrow> readCache (heap w ! j) | None \<Rightarrow> False) \<and>
            renderCache (heap w2 ! h) =
              (case templatePathCache w p of Some j \<Rightarrow> renderCache (heap w ! j) | None \<Rightarrow> False) \<and>
            dryRunViaIncremental (heap w2 ! h) \<and>
            (\<not> isRunInitialBuild w \<longrightarrow> renderableOverride (heap w2 ! h) = Some False)"
    unfolding before fl by (auto split: if_splits)
  have same: "templatePathCache w p \<in> {None, Some h}"
  proof (cases "templatePathCache w p")
    case None
    then show ?thesis by simp
  next
    case (Some j)
    with hb have "templatePathCache w1 p = Some j" by simp
    then have "templatePathCache w2 p = Some j"
      unfolding w2_def by (rule addPath_keeps)
    with h(1) Some show ?thesis by simp
  qed
  note o = foldl_addPath_other [OF wf2 nin(2) h(1), of env ?full ?pass ?rel to]
  have le2: "length (heap w2) \<le> length (heap (foldl ?step w2 ys))"
    by (rule foldl_addPath_heap_le)
  have ex: "\<exists>h. templatePathCache (foldl ?step w2 ys) p = Some h \<and>
               h < length (heap (foldl ?step w2 ys)) \<and>
               templatePathCache w p \<in> {None, Some h} \<and>
               (if ?relevant p
                then \<not> dataCache (heap (foldl ?step w2 ys) ! h) \<and>
                     \<not> renderCache (heap (foldl ?step w2 ys) ! h) \<and>
                     (\<not> isRunInitialBuild w \<longrightarrow>
                        renderableOverride (heap (foldl ?step w2 ys) ! h) = None)
                else \<not> dataCache (heap (foldl ?step w2 ys) ! h) \<and>
                     readCache (heap (foldl ?step w2 ys) ! h) =
                       (case templatePathCache w p of
                          Some j \<Rightarrow> readCache (heap w ! j) | None \<Rightarrow> False) \<and>
                     renderCache (heap (foldl ?step w2 ys) ! h) =
                       (case templatePathCache w p of
                          Some j \<Rightarrow> renderCache (heap w ! j) | None \<Rightarrow> False) \<and>
                     dryRunViaIncremental (heap (foldl ?step w2 ys) ! h) \<and>
                     (\<not> isRunInitialBuild w \<longrightarrow>
                        renderableOverride (heap (foldl ?step w2 ys) ! h) = Some False))"
    using o h(2) le2 hp same by (intro exI [of _ h]) (simp split: if_splits)
  show ?thesis
    unfolding Let_def w0(1) using sk ex unfolding fin by simp
qed

lemma wf_writerDeleted: "wf writerDeleted"
  by (simp add: wf_def writerDeleted_def populated_def writer0_def config0_def writer_defs
      template_defs Let_def)

theorem incremental_path_invalidation_witness:
  "wf writerDeleted \<and> incrementalFile writerDeleted = Some ''post.md'' \<and>
   \<not> isIncrementalFileAPassthroughCopy envDeleted writerDeleted (getFiles envDeleted) \<and>
   isFullTemplateFile envDeleted (getFiles envDeleted) (incrementalFile writerDeleted) \<and>
   dataCascade envDeleted ''post.md'' = None \<and> distinct (getFiles envDeleted) \<and>
   setupDependencyGraphChangesForIncrementalFile envDeleted ''post.md'' = {''tags.njk''} \<and>
   templatePathCache writerDeleted ''./tags.njk'' = Some 0 \<and>
   renderCache (heap writerDeleted ! 0) \<and> dataCache (heap writerDeleted ! 0) \<and>
   templatePathCache writerDeleted ''about.md'' = Some 1 \<and>
   renderCache (heap writerDeleted ! 1) \<and> dataCache (heap writerDeleted ! 1) \<and>
   skippedCount writerDeleted = 0 \<and>
   skippedCount (snd (addToTemplateMap envDeleted (getFiles envDeleted) ''fs'' writerDeleted)) = 1 \<and>
   templatePathCache (snd (addToTemplateMap envDeleted (getFiles envDeleted) ''fs'' writerDeleted))
     ''./tags.njk'' = Some 0 \<and>
   \<not> dataCache (heap (snd (addToTemplateMap envDeleted (getFiles envDeleted) ''fs'' writerDeleted)) ! 0) \<and>
   \<not> renderCache (heap (snd (addToTemplateMap envDeleted (getFiles envDeleted) ''fs'' writerDeleted)) ! 0) \<and>
   renderableOverride
     (heap (snd (addToTemplateMap envDeleted (getFiles envDeleted) ''fs'' writerDeleted)) ! 0) = None \<and>
   templatePathCache (snd (addToTemplateMap envDeleted (getFiles envDeleted) ''fs'' writerDeleted))
     ''about.md'' = Some 1 \<and>
   \<not> dataCache (heap (snd (addToTemplateMap envDeleted (getFiles envDeleted) ''fs'' writerDeleted)) ! 1) \<and>
   readCache (heap (snd (addToTemplateMap envDeleted (getFiles envDeleted) ''fs'' writerDeleted)) ! 1) \<and>
   renderCache (heap (snd (addToTemplateMap envDeleted (getFiles envDeleted) ''fs'' writerDeleted)) ! 1) \<and>
   dryRunViaIncremental
     (heap (snd (addToTemplateMap envDeleted (getFiles envDeleted) ''fs'' writerDeleted)) ! 1) \<and>
   renderableOverride
     (heap (snd (addToTemplateMap envDeleted (getFiles envDeleted) ''fs'' writerDeleted)) ! 1)
     = Some False"
proof -
  let ?w' = "snd (addToTemplateMap envDeleted (getFiles envDeleted) ''fs'' writerDeleted)"
  have h: "incrementalFile writerDeleted = Some ''post.md''" "''post.md'' \<noteq> []"
    "\<not> isIncrementalFileAPassthroughCopy envDeleted writerDeleted (getFiles envDeleted)"
    "isFullTemplateFile envDeleted (getFiles envDeleted) (incrementalFile writerDeleted) \<longrightarrow>
       dataCascade envDeleted ''post.md'' = None"
    "distinct (getFiles envDeleted)"
    by code_simp+
  have f: "isFullTemplateFile envDeleted (getFiles envDeleted) (incrementalFile writerDeleted)"
    "dataCascade envDeleted ''post.md'' = None"
    "setupDependencyGraphChangesForIncrementalFile envDeleted ''post.md'' = {''tags.njk''}"
    by code_simp+
  have p1: "''./tags.njk'' \<in> set (getFiles envDeleted)" "hasEngine envDeleted ''./tags.njk''"
    "''./tags.njk'' \<noteq> ''post.md''"
    by code_simp+
  have p2: "''about.md'' \<in> set (getFiles envDeleted)" "hasEngine envDeleted ''about.md''"
    "''about.md'' \<noteq> ''post.md''"
    by code_simp+
  have c: "templatePathCache writerDeleted ''./tags.njk'' = Some 0"
    "renderCache (heap writerDeleted ! 0)" "dataCache (heap writerDeleted ! 0)"
    "templatePathCache writerDeleted ''about.md'' = Some 1"
    "renderCache (heap writerDeleted ! 1)" "dataCache (heap writerDeleted ! 1)"
    "readCache (heap writerDeleted ! 1)"
    "skippedCount writerDeleted = 0" "\<not> isRunInitialBuild writerDeleted"
    by code_simp+
  have r: "\<not> isFileRelevantToThisTemplate envDeleted q ''post.md'' b" for q b
    by (simp add: envDeleted_def)
  have n: "length (filter (\<lambda>q. hasEngine envDeleted q \<and> \<not> (True \<and> q = ''post.md'') \<and>
              \<not> (stripLeadingDotSlash q \<in> {''tags.njk''})) (getFiles envDeleted)) = 1"
    by code_simp
  show ?thesis
    using wf_writerDeleted h(1,3,5) f c n
      incremental_path_invalidation [OF wf_writerDeleted h p1, of "''fs''"]
      incremental_path_invalidation [OF wf_writerDeleted h p2, of "''fs''"]
    by (simp add: Let_def f r c)
qed

end
